theory Spec2Isabelle
  imports Complex_Main
begin

section \<open>Python values used by \<open>sir.py\<close>\<close>

text \<open>
  A city is a Python list of strings, one per person: \<open>"S"\<close>, \<open>"R"\<close>, \<open>"V"\<close>, or
  \<open>"I"\<close> followed by the number of days the person has been infected. The program
  works on these strings directly, so the model keeps them as strings. A raised
  exception is the left summand of the result.
\<close>

datatype py_error =
  ValueError | IndexError | AssertionError | TypeError | ZeroDivisionError | OverflowError

text \<open>\<open>xs[i]\<close>: a negative index counts from the end; outside the list it raises.\<close>

definition py_index :: "'a list \<Rightarrow> int \<Rightarrow> py_error + 'a" where
  "py_index xs i =
     (if 0 \<le> i \<and> i < int (length xs) then Inr (xs ! nat i)
      else if i < 0 \<and> 0 \<le> i + int (length xs) then Inr (xs ! nat (i + int (length xs)))
      else Inl IndexError)"

text \<open>\<open>'I' in s\<close> for a string \<open>s\<close>: the one-character substring test.\<close>

definition has_I :: "string \<Rightarrow> bool" where
  "has_I s = (CHR ''I'' \<in> set s)"

subsection \<open>\<open>int(s)\<close> and \<open>str(n)\<close>\<close>

text \<open>
  A character of the model is a code point below 256. \<open>s.strip()\<close> removes the white
  space of Unicode at both ends; below 256 these are the characters of \<open>py_isspace\<close>.
\<close>

definition py_isspace :: "char \<Rightarrow> bool" where
  "py_isspace c = (c \<in> set [CHR 0x09, CHR 0x0A, CHR 0x0B, CHR 0x0C, CHR 0x0D,
                              CHR 0x1C, CHR 0x1D, CHR 0x1E, CHR 0x1F, CHR 0x20,
                              CHR 0x85, CHR 0xA0])"

definition py_strip :: "string \<Rightarrow> string" where
  "py_strip s = rev (dropWhile py_isspace (rev (dropWhile py_isspace s)))"

text \<open>
  \<open>int\<close> on a string, base ten: white space is skipped at both ends, then comes an
  optional sign, then decimal digits, where single underscores may separate digits.
  Anything else raises \<open>ValueError\<close>. The white space that \<open>int\<close> skips is not
  that of \<open>strip\<close>: the separators \<open>0x1C\<close> to \<open>0x1F\<close> are not skipped, and
  \<open>int\<close> raises on them. Below 256 the only digits are \<open>0\<close> to \<open>9\<close>. The
  interpreter's limit on the number of digits is left out.
\<close>

definition int_isspace :: "char \<Rightarrow> bool" where
  "int_isspace c = (c \<in> set [CHR 0x09, CHR 0x0A, CHR 0x0B, CHR 0x0C, CHR 0x0D, CHR 0x20,
                               CHR 0x85, CHR 0xA0])"

definition int_strip :: "string \<Rightarrow> string" where
  "int_strip s = rev (dropWhile int_isspace (rev (dropWhile int_isspace s)))"

definition digit_val :: "char \<Rightarrow> nat option" where
  "digit_val c = map_of [(CHR ''0'', 0), (CHR ''1'', 1), (CHR ''2'', 2), (CHR ''3'', 3),
                         (CHR ''4'', 4), (CHR ''5'', 5), (CHR ''6'', 6), (CHR ''7'', 7),
                         (CHR ''8'', 8), (CHR ''9'', 9)] c"

definition is_digit :: "char \<Rightarrow> bool" where
  "is_digit c = (digit_val c \<noteq> None)"

text \<open>The digits after the first one, with the value read so far.\<close>

fun digits_acc :: "nat \<Rightarrow> string \<Rightarrow> nat option" where
  "digits_acc a [] = Some a"
| "digits_acc a [c] = (case digit_val c of None \<Rightarrow> None | Some v \<Rightarrow> Some (10 * a + v))"
| "digits_acc a (c # d # ds) =
     (if c = CHR ''_'' then
        (case digit_val d of None \<Rightarrow> None | Some v \<Rightarrow> digits_acc (10 * a + v) ds)
      else
        (case digit_val c of None \<Rightarrow> None | Some v \<Rightarrow> digits_acc (10 * a + v) (d # ds)))"

definition py_digits :: "string \<Rightarrow> nat option" where
  "py_digits s =
     (case s of [] \<Rightarrow> None
      | c # cs \<Rightarrow> (case digit_val c of None \<Rightarrow> None | Some v \<Rightarrow> digits_acc v cs))"

definition py_int :: "string \<Rightarrow> py_error + int" where
  "py_int s =
     (case int_strip s of [] \<Rightarrow> Inl ValueError
      | c # cs \<Rightarrow>
          if c = CHR ''-'' then
            (case py_digits cs of None \<Rightarrow> Inl ValueError | Some n \<Rightarrow> Inr (- int n))
          else if c = CHR ''+'' then
            (case py_digits cs of None \<Rightarrow> Inl ValueError | Some n \<Rightarrow> Inr (int n))
          else
            (case py_digits (c # cs) of None \<Rightarrow> Inl ValueError | Some n \<Rightarrow> Inr (int n)))"

text \<open>\<open>str(n)\<close> for an integer: its decimal digits, after a minus sign when negative.\<close>

definition digit_char :: "nat \<Rightarrow> char" where
  "digit_char k = ''0123456789'' ! k"

fun nat_digits :: "nat \<Rightarrow> string" where
  "nat_digits n =
     (if n < 10 then [digit_char n] else nat_digits (n div 10) @ [digit_char (n mod 10)])"

declare nat_digits.simps [simp del]

definition py_str :: "int \<Rightarrow> string" where
  "py_str n = (if n < 0 then CHR ''-'' # nat_digits (nat (- n)) else nat_digits (nat n))"

subsection \<open>\<open>a / b\<close> for two integers\<close>

text \<open>
  The quotient of two integers is a float: the double nearest to the exact quotient,
  and of two doubles equally near the one whose last binary digit is even. A double
  other than zero is, up to its sign, an integer below \<open>2 ^ 53\<close> times a power of two
  with an exponent of at least -1074. A quotient that rounds to \<open>2 ^ 1024\<close> or more
  raises \<open>OverflowError\<close>, a divisor 0 raises \<open>ZeroDivisionError\<close>. A float is
  the real number it stands for; the sign of a zero is not kept.
\<close>

text \<open>\<open>n.bit_length()\<close> for \<open>n \<ge> 0\<close>: the number of binary digits of \<open>n\<close>.\<close>

function bit_length :: "int \<Rightarrow> nat" where
  "bit_length n = (if n \<le> 0 then 0 else Suc (bit_length (n div 2)))"
  by pat_completeness auto
termination
  by (relation "measure nat") auto

declare bit_length.simps [simp del]

definition pow2 :: "int \<Rightarrow> real" where
  "pow2 k = (if 0 \<le> k then 2 ^ nat k else 1 / 2 ^ nat (- k))"

text \<open>The integer nearest to \<open>x\<close>, the even one of two equally near.\<close>

definition round_half_even :: "real \<Rightarrow> int" where
  "round_half_even x =
     (let f = \<lfloor>x\<rfloor>
      in if x - of_int f < 1 / 2 then f
         else if 1 / 2 < x - of_int f then f + 1
         else if even f then f else f + 1)"

text \<open>The exponent \<open>e\<close> with \<open>2 ^ e \<le> p / q < 2 ^ (e + 1)\<close>, for positive \<open>p\<close> and \<open>q\<close>.\<close>

definition quotient_exponent :: "int \<Rightarrow> int \<Rightarrow> int" where
  "quotient_exponent p q =
     (let k = int (bit_length p) - int (bit_length q)
      in if pow2 k \<le> real_of_int p / real_of_int q then k else k - 1)"

definition py_truediv :: "int \<Rightarrow> int \<Rightarrow> py_error + real" where
  "py_truediv a b =
     (if b = 0 then Inl ZeroDivisionError
      else if a = 0 then Inr 0
      else
        (let x = \<bar>real_of_int a / real_of_int b\<bar>;
             ulp = pow2 (max (quotient_exponent \<bar>a\<bar> \<bar>b\<bar>) (- 1022) - 52);
             r = real_of_int (round_half_even (x / ulp)) * ulp
         in if pow2 1024 \<le> r then Inl OverflowError
            else Inr (if (a < 0) = (b < 0) then r else - r)))"

section \<open>Control flow with exceptions\<close>

text \<open>
  The operands of \<open>and\<close>, \<open>or\<close> and the conditions of \<open>if\<close>/\<open>elif\<close> may raise.
  The operators evaluate left to right and stop early, so a right operand raises only
  when it is evaluated.
\<close>

definition py_map :: "('a \<Rightarrow> 'b) \<Rightarrow> py_error + 'a \<Rightarrow> py_error + 'b" where
  "py_map f m = (case m of Inl e \<Rightarrow> Inl e | Inr x \<Rightarrow> Inr (f x))"

definition py_and :: "bool \<Rightarrow> py_error + bool \<Rightarrow> py_error + bool" where
  "py_and b m = (if b then m else Inr False)"

definition py_or :: "py_error + bool \<Rightarrow> py_error + bool \<Rightarrow> py_error + bool" where
  "py_or m1 m2 = (case m1 of Inl e \<Rightarrow> Inl e | Inr b \<Rightarrow> if b then Inr True else m2)"

definition py_if :: "py_error + bool \<Rightarrow> py_error + 'a \<Rightarrow> py_error + 'a \<Rightarrow> py_error + 'a" where
  "py_if c t e = (case c of Inl x \<Rightarrow> Inl x | Inr b \<Rightarrow> if b then t else e)"

section \<open>The simulation\<close>

subsection \<open>\<open>has_an_infected_neighbor\<close>\<close>

text \<open>
  The assertion comes first; then the chain of \<open>if\<close>/\<open>elif\<close> of the source, branch by
  branch, with \<open>infected_neighbor = False\<close> as the value when no branch is taken.
\<close>

definition has_an_infected_neighbor :: "string list \<Rightarrow> int \<Rightarrow> py_error + bool" where
  "has_an_infected_neighbor city position =
     (case py_index city position of Inl e \<Rightarrow> Inl e
      | Inr p \<Rightarrow>
          if p \<noteq> ''S'' then Inl AssertionError
          else
            py_if (py_and (position = 0 \<and> int (length city) > 1)
                     (py_map has_I (py_index city 1)))
              (Inr True)
           (py_if (py_and (position = 0 \<and> int (length city) > 1)
                     (py_map (\<lambda>s. \<not> has_I s) (py_index city 1)))
              (Inr False)
           (py_if (py_and (position = int (length city) - 1)
                     (py_map has_I (py_index city (int (length city) - 2))))
              (Inr True)
           (py_if (py_and (position = int (length city) - 1)
                     (py_map (\<lambda>s. \<not> has_I s) (py_index city (int (length city) - 2))))
              (Inr False)
           (py_if (py_and (position > 0)
                     (py_or (py_map has_I (py_index city (position - 1)))
                            (py_map has_I (py_index city (position + 1)))))
              (Inr True)
              (Inr False))))))"

subsection \<open>\<open>advance_person_at_position\<close>\<close>

text \<open>
  \<open>city[position]\<close> is read once here; the source reads it again in every branch, with
  the same result. \<open>city[position][1:]\<close> is the string without its first character.
\<close>

definition advance_person_at_position :: "string list \<Rightarrow> int \<Rightarrow> int \<Rightarrow> py_error + string" where
  "advance_person_at_position city position days_contagious =
     (case py_index city position of Inl e \<Rightarrow> Inl e
      | Inr p \<Rightarrow>
          py_if (py_and (has_I p)
                   (py_map (\<lambda>d. d + 1 \<ge> days_contagious) (py_int (drop 1 p))))
            (Inr ''R'')
         (py_if (py_and (has_I p)
                   (py_map (\<lambda>d. d + 1 < days_contagious) (py_int (drop 1 p))))
            (py_map (\<lambda>d. CHR ''I'' # py_str (d + 1)) (py_int (drop 1 p)))
         (py_if (py_and (''S'' = p)
                   (py_map (\<lambda>b. b = True) (has_an_infected_neighbor city position)))
            (Inr ''I0'')
            (Inr p))))"

subsection \<open>\<open>simulate_one_day\<close>\<close>

text \<open>
  The loop runs over the people of \<open>starting_city\<close>; \<open>new_city\<close> and \<open>i\<close> are its
  variables. An exception in the body ends the function.
\<close>

fun simulate_loop ::
  "string list \<Rightarrow> int \<Rightarrow> string list \<Rightarrow> string list \<Rightarrow> int \<Rightarrow> py_error + string list" where
  "simulate_loop starting_city days_contagious [] new_city i = Inr new_city"
| "simulate_loop starting_city days_contagious (ind # rest) new_city i =
     (case advance_person_at_position starting_city i days_contagious of
        Inl e \<Rightarrow> Inl e
      | Inr s \<Rightarrow> simulate_loop starting_city days_contagious rest (new_city @ [s]) (i + 1))"

definition simulate_one_day :: "string list \<Rightarrow> int \<Rightarrow> py_error + string list" where
  "simulate_one_day starting_city days_contagious =
     simulate_loop starting_city days_contagious starting_city [] 0"

subsection \<open>The random number generator\<close>

text \<open>
  The module \<open>random\<close> is a library, not part of the program. Its generator is a
  global: the draws it will return next, in order. \<open>random.random()\<close> returns the first
  pending draw and drops it. \<open>random.seed(k)\<close> with an integer \<open>k\<close> replaces the pending
  draws by the ones fixed by \<open>k\<close>, given here by the parameter \<open>mt\<close> (the generator's
  algorithm); \<open>random.seed(None)\<close> takes them from the system's entropy, which the
  program does not control. Python documents every draw to lie in the interval from 0
  (included) to 1 (excluded): that is \<open>unit_draws\<close>, a hypothesis where it is needed.
  The field \<open>seeded\<close> is the history of the generator: the arguments of the calls of
  \<open>random.seed\<close> so far, the oldest first.
\<close>

type_synonym draws = "nat \<Rightarrow> real"

record world =
  rng :: draws
  entropy :: "nat \<Rightarrow> draws"
  seeded :: "int option list"

definition unit_draws :: "draws \<Rightarrow> bool" where
  "unit_draws g = (\<forall>n. 0 \<le> g n \<and> g n < 1)"

definition random_seed :: "(int \<Rightarrow> draws) \<Rightarrow> int option \<Rightarrow> world \<Rightarrow> world" where
  "random_seed mt a w =
     (case a of
        Some k \<Rightarrow> w\<lparr>rng := mt k, seeded := seeded w @ [a]\<rparr>
      | None \<Rightarrow> w\<lparr>rng := entropy w 0, entropy := (\<lambda>n. entropy w (Suc n)),
                  seeded := seeded w @ [a]\<rparr>)"

definition random_random :: "draws \<Rightarrow> real \<times> draws" where
  "random_random g = (g 0, (\<lambda>n. g (Suc n)))"

subsection \<open>\<open>vaccinate_city\<close>\<close>

text \<open>
  This function writes into a list, so it is modelled on a store: the list objects
  in the order of their creation, an address being a position in the store.
  \<open>starting_city[:]\<close> creates a new list with the same elements; the loop then writes
  into that new list, at address \<open>b\<close>. The loop reads the list's length and item at
  every round, as the list iterator of Python does.
\<close>

type_synonym store = "string list list"

function vaccinate_loop :: "store \<Rightarrow> nat \<Rightarrow> real \<Rightarrow> nat \<Rightarrow> draws \<Rightarrow> store \<times> draws" where
  "vaccinate_loop h b vaccine_effectiveness x g =
     (if x < length (h ! b) then
        (if (h ! b) ! x = ''S'' then
           (if fst (random_random g) < vaccine_effectiveness then
              vaccinate_loop (h[b := (h ! b)[x := ''V'']]) b vaccine_effectiveness (x + 1)
                (snd (random_random g))
            else vaccinate_loop h b vaccine_effectiveness (x + 1) (snd (random_random g)))
         else vaccinate_loop h b vaccine_effectiveness (x + 1) g)
      else (h, g))"
  by pat_completeness auto
termination
proof (relation "measure (\<lambda>(h, b, ve, x, g). length (h ! b) - x)")
  show "wf (measure (\<lambda>(h, b, ve, x, g). length (h ! b) - x))"
    by simp
next
  fix h :: store and b :: nat and vaccine_effectiveness :: real and x :: nat and g :: draws
  assume "x < length (h ! b)"
  then show "((h[b := (h ! b)[x := ''V'']], b, vaccine_effectiveness, x + 1, snd (random_random g)),
              (h, b, vaccine_effectiveness, x, g))
             \<in> measure (\<lambda>(h, b, ve, x, g). length (h ! b) - x)"
    by (cases "b < length h") (auto simp: list_update_beyond)
qed auto

declare vaccinate_loop.simps [simp del]

text \<open>
  The store-level function: the new store, the address of the returned list, and the
  generator after the draws.
\<close>

definition vaccinate_city_store ::
  "store \<Rightarrow> nat \<Rightarrow> real \<Rightarrow> draws \<Rightarrow> store \<times> nat \<times> draws" where
  "vaccinate_city_store h a vaccine_effectiveness g =
     (let h1 = h @ [h ! a];
          b = length h;
          (h2, g2) = vaccinate_loop h1 b vaccine_effectiveness 0 g
      in (h2, b, g2))"

text \<open>
  For a caller that only passes the list's value and uses the returned value: the call
  in a store that holds just the argument.
\<close>

definition vaccinate_city :: "string list \<Rightarrow> real \<Rightarrow> draws \<Rightarrow> string list \<times> draws" where
  "vaccinate_city starting_city vaccine_effectiveness g =
     (case vaccinate_city_store [starting_city] 0 vaccine_effectiveness g of
        (h, b, g') \<Rightarrow> (h ! b, g'))"

subsection \<open>\<open>run_simulation\<close>\<close>

text \<open>
  \<open>range(len(starting_city) + days_contagious)\<close> is empty when its argument is not
  positive; the first argument of \<open>run_loop\<close> is the number of rounds that remain.
  \<open>''.join(ending_city)\<close> is \<open>concat\<close>.
\<close>

fun run_loop :: "nat \<Rightarrow> int \<Rightarrow> string list \<Rightarrow> int \<Rightarrow> py_error + (string list \<times> int)" where
  "run_loop 0 days_contagious ending_city duration = Inr (ending_city, duration)"
| "run_loop (Suc k) days_contagious ending_city duration =
     (if \<not> has_I (concat ending_city) then Inr (ending_city, duration)
      else
        (case simulate_one_day ending_city days_contagious of
           Inl e \<Rightarrow> Inl e
         | Inr c \<Rightarrow> run_loop k days_contagious c (duration + 1)))"

definition run_simulation ::
  "(int \<Rightarrow> draws) \<Rightarrow> string list \<Rightarrow> int \<Rightarrow> int option \<Rightarrow> real \<Rightarrow> world
     \<Rightarrow> (py_error + (string list \<times> int)) \<times> world" where
  "run_simulation mt starting_city days_contagious seed vaccine_effectiveness w =
     (let w1 = random_seed mt seed w;
          (ending_city, g) = vaccinate_city starting_city vaccine_effectiveness (rng w1)
      in (run_loop (nat (int (length starting_city) + days_contagious)) days_contagious
            ending_city 0,
          w1\<lparr>rng := g\<rparr>))"

subsection \<open>\<open>calc_avg_days_to_zero_infections\<close>\<close>

text \<open>
  The loop over \<open>range(num_trials)\<close>, with \<open>duration_list\<close> and \<open>random_seed\<close> as its
  variables. \<open>random_seed += 1\<close> raises \<open>TypeError\<close> when the seed is \<open>None\<close>. The
  function returns \<open>sum(duration_list) / len(duration_list)\<close>, a float. The generator
  is returned with the result, as the calls have left it.
\<close>

fun trials_loop ::
  "(int \<Rightarrow> draws) \<Rightarrow> string list \<Rightarrow> int \<Rightarrow> real \<Rightarrow> nat \<Rightarrow> int list \<Rightarrow> int option \<Rightarrow> world
     \<Rightarrow> (py_error + int list) \<times> world" where
  "trials_loop mt starting_city days_contagious vaccine_effectiveness 0 duration_list seed w =
     (Inr duration_list, w)"
| "trials_loop mt starting_city days_contagious vaccine_effectiveness (Suc k) duration_list seed w =
     (case run_simulation mt starting_city days_contagious seed vaccine_effectiveness w of
        (Inl e, w') \<Rightarrow> (Inl e, w')
      | (Inr r, w') \<Rightarrow>
          (case seed of
             None \<Rightarrow> (Inl TypeError, w')
           | Some s \<Rightarrow>
               trials_loop mt starting_city days_contagious vaccine_effectiveness k
                 (duration_list @ [snd r]) (Some (s + 1)) w'))"

definition calc_avg_days_to_zero_infections ::
  "(int \<Rightarrow> draws) \<Rightarrow> string list \<Rightarrow> int \<Rightarrow> int option \<Rightarrow> real \<Rightarrow> int \<Rightarrow> world
     \<Rightarrow> (py_error + real) \<times> world" where
  "calc_avg_days_to_zero_infections mt starting_city days_contagious seed
       vaccine_effectiveness num_trials w =
     (if \<not> num_trials > 0 then (Inl AssertionError, w)
      else
        (case trials_loop mt starting_city days_contagious vaccine_effectiveness
                (nat num_trials) [] seed w of
           (Inl e, w') \<Rightarrow> (Inl e, w')
         | (Inr duration_list, w') \<Rightarrow>
             (py_truediv (sum_list duration_list) (int (length duration_list)), w')))"

subsection \<open>The check of the city in \<open>cmd\<close>\<close>

text \<open>
  \<open>city.split(",")\<close>, each piece stripped, then the loop that checks every person.
  \<open>Inr True\<close>: the person passes. \<open>Inr False\<close>: the error message is printed and
  \<open>cmd\<close> returns -1. \<open>Inl\<close>: an exception that \<open>cmd\<close> does not catch (only
  \<open>ValueError\<close> is caught, around \<open>int(p[1])\<close>).
\<close>

fun split_comma :: "string \<Rightarrow> string list" where
  "split_comma [] = [[]]"
| "split_comma (c # cs) =
     (if c = CHR '','' then [] # split_comma cs
      else (case split_comma cs of [] \<Rightarrow> [[c]] | w # ws \<Rightarrow> (c # w) # ws))"

definition check_person :: "string \<Rightarrow> py_error + bool" where
  "check_person p =
     (case py_index p 0 of Inl e \<Rightarrow> Inl e
      | Inr c \<Rightarrow>
          if c = CHR ''I'' then
            (case py_index p 1 of Inl e \<Rightarrow> Inl e
             | Inr d \<Rightarrow> (case py_int [d] of Inl e \<Rightarrow> Inr False | Inr v \<Rightarrow> Inr True))
          else if p \<notin> {''S'', ''R''} then Inr False
          else Inr True)"

fun check_city :: "string list \<Rightarrow> py_error + bool" where
  "check_city [] = Inr True"
| "check_city (p # ps) =
     (case check_person p of Inl e \<Rightarrow> Inl e
      | Inr ok \<Rightarrow> if ok then check_city ps else Inr False)"

definition cmd_city :: "string \<Rightarrow> py_error + bool" where
  "cmd_city city = check_city (map py_strip (split_comma city))"

section \<open>The data model of the specification\<close>

text \<open>
  The person-states of the specification and their text. The rule of the specification
  for one person and one day follows its wording (4.2 and 4.3), on these states.
\<close>

datatype person = Susceptible | Recovered | Vaccinated | Infected nat

fun render :: "person \<Rightarrow> string" where
  "render Susceptible = ''S''"
| "render Recovered = ''R''"
| "render Vaccinated = ''V''"
| "render (Infected d) = CHR ''I'' # py_str (int d)"

fun is_infected :: "person \<Rightarrow> bool" where
  "is_infected (Infected d) = True"
| "is_infected _ = False"

definition neighbor_spec :: "person list \<Rightarrow> nat \<Rightarrow> bool" where
  "neighbor_spec sts i =
     ((0 < i \<and> is_infected (sts ! (i - 1))) \<or> (i + 1 < length sts \<and> is_infected (sts ! (i + 1))))"

definition advance_spec :: "person list \<Rightarrow> nat \<Rightarrow> int \<Rightarrow> person" where
  "advance_spec sts i days_contagious =
     (case sts ! i of
        Infected d \<Rightarrow> if int d + 1 \<ge> days_contagious then Recovered else Infected (d + 1)
      | Susceptible \<Rightarrow> if neighbor_spec sts i then Infected 0 else Susceptible
      | Recovered \<Rightarrow> Recovered
      | Vaccinated \<Rightarrow> Vaccinated)"

definition step_spec :: "person list \<Rightarrow> int \<Rightarrow> person list" where
  "step_spec sts days_contagious = map (\<lambda>i. advance_spec sts i days_contagious) [0..<length sts]"

text \<open>
  The vaccination pass in the words of the specification (4.5): every susceptible
  person takes the next draw and becomes vaccinated when the draw is below the
  effectiveness; everybody else stays as they are and takes no draw.
\<close>

fun vaccinate_spec :: "real \<Rightarrow> string list \<Rightarrow> draws \<Rightarrow> string list" where
  "vaccinate_spec ve [] g = []"
| "vaccinate_spec ve (p # ps) g =
     (if p = ''S'' then (if g 0 < ve then ''V'' else ''S'') # vaccinate_spec ve ps (\<lambda>n. g (Suc n))
      else p # vaccinate_spec ve ps g)"

definition count_S :: "string list \<Rightarrow> nat" where
  "count_S city = length (filter (\<lambda>p. p = ''S'') city)"

text \<open>The day-advance of the specification (4.4), repeated \<open>n\<close> times.\<close>

definition days_spec :: "nat \<Rightarrow> int \<Rightarrow> person list \<Rightarrow> person list" where
  "days_spec n days_contagious sts = ((\<lambda>s. step_spec s days_contagious) ^^ n) sts"

text \<open>A generator for the examples: every draw is one half.\<close>

definition example_draws :: draws where
  "example_draws = (\<lambda>n. 1 / 2)"

definition example_mt :: "int \<Rightarrow> draws" where
  "example_mt = (\<lambda>k. example_draws)"

definition example_world :: world where
  "example_world = \<lparr>rng = example_draws, entropy = (\<lambda>k. example_draws), seeded = []\<rparr>"

text \<open>A second one: the seed 0 gives draws that are all 0, any other seed one half.\<close>

definition varying_mt :: "int \<Rightarrow> draws" where
  "varying_mt = (\<lambda>k n. if k = 0 then 0 else 1 / 2)"

section \<open>Facts about the string functions\<close>

text \<open>\<open>int(str(n)) = n\<close> for a natural number, and the characters of \<open>str(n)\<close>.\<close>


lemma lt10_cases:
  "k < (10::nat) \<Longrightarrow> k = 0 \<or> k = 1 \<or> k = 2 \<or> k = 3 \<or> k = 4 \<or> k = 5 \<or> k = 6 \<or> k = 7 \<or> k = 8 \<or> k = 9"
  by arith

lemma digit_val_digit_char: "k < 10 \<Longrightarrow> digit_val (digit_char k) = Some k"
  using lt10_cases [of k] by (auto simp: digit_val_def digit_char_def)

lemma is_digit_digit_char: "k < 10 \<Longrightarrow> is_digit (digit_char k)"
  by (simp add: is_digit_def digit_val_digit_char)

lemma is_digit_simps:
  "\<not> is_digit (CHR ''I'')" "\<not> is_digit (CHR ''_'')" "\<not> is_digit (CHR ''-'')"
  "\<not> is_digit (CHR ''+'')" "\<not> is_digit (CHR ''S'')"
  by (simp_all add: is_digit_def digit_val_def)

lemma is_digit_not_space: "is_digit c \<Longrightarrow> \<not> int_isspace c"
  by (auto simp: is_digit_def digit_val_def int_isspace_def split: if_splits)

lemma nat_digits_all: "c \<in> set (nat_digits n) \<Longrightarrow> is_digit c"
proof (induction n rule: nat_digits.induct)
  case (1 n)
  show ?case
  proof (cases "n < 10")
    case True
    with "1.prems" show ?thesis by (simp add: nat_digits.simps [of n] is_digit_digit_char)
  next
    case False
    with "1.prems" "1.IH" show ?thesis by (auto simp: nat_digits.simps [of n] is_digit_digit_char)
  qed
qed

lemma nat_digits_nonempty: "nat_digits n \<noteq> []"
  by (subst nat_digits.simps) simp

lemma digits_acc_snoc:
  "\<forall>c \<in> set ds. is_digit c \<Longrightarrow> k < 10 \<Longrightarrow>
   digits_acc a (ds @ [digit_char k]) = map_option (\<lambda>m. 10 * m + k) (digits_acc a ds)"
proof (induction a ds rule: digits_acc.induct)
  case (1 a)
  then show ?case by (simp add: digit_val_digit_char)
next
  case (2 a c)
  then have "c \<noteq> CHR ''_''" using is_digit_simps by auto
  with 2 show ?case by (auto simp: digit_val_digit_char is_digit_def split: option.splits)
next
  case (3 a c d ds)
  then have c: "c \<noteq> CHR ''_''" using is_digit_simps by auto
  from 3 obtain v where v: "digit_val c = Some v" by (auto simp: is_digit_def)
  from 3 have "\<forall>c\<in>set (d # ds). is_digit c" by simp
  with 3 c v have "digits_acc (10 * a + v) ((d # ds) @ [digit_char k])
      = map_option (\<lambda>m. 10 * m + k) (digits_acc (10 * a + v) (d # ds))"
    by blast 
  with c v show ?case by simp
qed

lemma py_digits_snoc:
  "ds \<noteq> [] \<Longrightarrow> \<forall>c \<in> set ds. is_digit c \<Longrightarrow> k < 10 \<Longrightarrow>
   py_digits (ds @ [digit_char k]) = map_option (\<lambda>m. 10 * m + k) (py_digits ds)"
  by (cases ds) (auto simp: py_digits_def digits_acc_snoc is_digit_def split: option.splits)

lemma py_digits_nat_digits: "py_digits (nat_digits n) = Some n"
proof (induction n rule: nat_digits.induct)
  case (1 n)
  show ?case
  proof (cases "n < 10")
    case True
    then show ?thesis by (simp add: nat_digits.simps [of n] py_digits_def digit_val_digit_char)
  next
    case False
    then have "py_digits (nat_digits n) = py_digits (nat_digits (n div 10) @ [digit_char (n mod 10)])"
      by (subst nat_digits.simps) simp
    also have "\<dots> = map_option (\<lambda>m. 10 * m + n mod 10) (py_digits (nat_digits (n div 10)))"
      by (rule py_digits_snoc) (auto simp: nat_digits_nonempty nat_digits_all)
    also have "\<dots> = Some n" using "1.IH" False by simp
    finally show ?thesis .
  qed
qed

lemma int_strip_id:
  "s \<noteq> [] \<Longrightarrow> \<not> int_isspace (hd s) \<Longrightarrow> \<not> int_isspace (last s) \<Longrightarrow> int_strip s = s"
proof -
  assume a: "s \<noteq> []" "\<not> int_isspace (hd s)" "\<not> int_isspace (last s)"
  then have 1: "dropWhile int_isspace s = s" by (cases s) auto
  from a have "rev s \<noteq> []" "\<not> int_isspace (hd (rev s))" by (auto simp: hd_rev)
  then have "dropWhile int_isspace (rev s) = rev s" by (cases "rev s") auto
  with 1 show ?thesis by (simp add: int_strip_def)
qed

lemma py_int_nat_digits: "py_int (nat_digits n) = Inr (int n)"
proof -
  have ne: "nat_digits n \<noteq> []" by (rule nat_digits_nonempty)
  have h: "is_digit (hd (nat_digits n))"
    using ne by (intro nat_digits_all [of _ n] hd_in_set)
  have l: "is_digit (last (nat_digits n))"
    using ne by (intro nat_digits_all [of _ n] last_in_set)
  from h l
  have "int_strip (nat_digits n) = nat_digits n"
    using ne by (intro int_strip_id) (auto dest: is_digit_not_space)
  moreover obtain c cs where cs: "nat_digits n = c # cs" using ne by (cases "nat_digits n") auto
  moreover have "c \<noteq> CHR ''-''" "c \<noteq> CHR ''+''" using h cs is_digit_simps by auto
  ultimately show ?thesis using py_digits_nat_digits [of n] by (simp add: py_int_def)
qed

lemma py_int_py_str_nat: "py_int (py_str (int d)) = Inr (int d)"
  by (simp add: py_str_def py_int_nat_digits)

lemma has_I_render: "has_I (render p) = is_infected p"
  by (cases p) (simp_all add: has_I_def)

section \<open>Facts about the neighbour rule\<close>

lemma py_index_nat: "i < length xs \<Longrightarrow> py_index xs (int i) = Inr (xs ! i)"
  by (simp add: py_index_def)

lemma neighbor_general:
  assumes "i < length city" and "city ! i = ''S''"
  shows "has_an_infected_neighbor city (int i) =
           Inr ((0 < i \<and> has_I (city ! (i - 1))) \<or> (i + 1 < length city \<and> has_I (city ! (i + 1))))"
proof -
  consider (single) "length city = 1" "i = 0"
    | (first) "i = 0" "1 < length city"
    | (last) "0 < i" "i + 1 = length city"
    | (inner) "0 < i" "i + 1 < length city"
    using assms(1) by arith
  then show ?thesis
  proof cases
    case single
    then have "city ! 0 = ''S''" using assms by simp
    with single assms show ?thesis
      by (simp add: has_an_infected_neighbor_def py_index_def py_if_def py_and_def py_map_def has_I_def)
  next
    case first
    with assms show ?thesis
      by (simp add: has_an_infected_neighbor_def py_index_def py_if_def py_and_def py_map_def)
  next
    case last
    then have len: "length city = Suc i" by simp
    have l: "py_index city (int i - 1) = Inr (city ! (i - 1))"
      using last assms py_index_nat [of "i - 1" city] by simp
    have p: "py_index city (int i) = Inr ''S''"
      using assms by (simp add: py_index_nat)
    have "int i \<noteq> 0" using last by simp
    then show ?thesis
      unfolding has_an_infected_neighbor_def p
      by (simp add: len l py_if_def py_and_def py_map_def)
  next
    case inner
    have l: "py_index city (int i - 1) = Inr (city ! (i - 1))"
      using inner py_index_nat [of "i - 1" city] by simp
    have r: "py_index city (int i + 1) = Inr (city ! (i + 1))"
      using inner py_index_nat [of "i + 1" city] by (simp add: add.commute)
    from inner have "int i \<noteq> 0" "int i \<noteq> int (length city) - 1" by auto
    with assms inner l r show ?thesis
      by (simp add: has_an_infected_neighbor_def py_index_nat py_if_def py_and_def py_or_def py_map_def)
  qed
qed

section \<open>One person, one day\<close>

lemma py_str_0: "py_str 0 = ''0''"
  by (simp add: py_str_def nat_digits.simps [of 0] digit_char_def)

lemma neighbor_render:
  assumes "i < length sts" and "sts ! i = Susceptible"
  shows "has_an_infected_neighbor (map render sts) (int i) = Inr (neighbor_spec sts i)"
proof -
  have "has_an_infected_neighbor (map render sts) (int i) =
          Inr ((0 < i \<and> has_I (map render sts ! (i - 1))) \<or>
               (i + 1 < length (map render sts) \<and> has_I (map render sts ! (i + 1))))"
    using assms by (intro neighbor_general) simp_all
  moreover have "0 < i \<Longrightarrow> map render sts ! (i - 1) = render (sts ! (i - 1))"
    using assms by simp
  moreover have "i + 1 < length sts \<Longrightarrow> map render sts ! (i + 1) = render (sts ! (i + 1))"
    by simp
  ultimately show ?thesis
    by (auto simp: neighbor_spec_def has_I_render)
qed

lemma advance_render:
  assumes "i < length sts"
  shows "advance_person_at_position (map render sts) (int i) days_contagious =
           Inr (render (advance_spec sts i days_contagious))"
proof -
  have p: "py_index (map render sts) (int i) = Inr (render (sts ! i))"
    using assms by (simp add: py_index_nat)
  show ?thesis
  proof (cases "sts ! i")
    case Susceptible
    with assms have "has_an_infected_neighbor (map render sts) (int i) = Inr (neighbor_spec sts i)"
      by (simp add: neighbor_render)
    with Susceptible show ?thesis
      unfolding advance_person_at_position_def p
      by (simp add: advance_spec_def py_if_def py_and_def py_map_def has_I_def py_str_0)
  next
    case Recovered
    then show ?thesis
      unfolding advance_person_at_position_def p
      by (simp add: advance_spec_def py_if_def py_and_def py_map_def has_I_def)
  next
    case Vaccinated
    then show ?thesis
      unfolding advance_person_at_position_def p
      by (simp add: advance_spec_def py_if_def py_and_def py_map_def has_I_def)
  next
    case (Infected d)
    have "py_str (int d + 1) = py_str (int (d + 1))" by (simp add: ac_simps)
    with Infected show ?thesis
      unfolding advance_person_at_position_def p
      by (simp add: advance_spec_def py_if_def py_and_def py_map_def has_I_def py_int_py_str_nat
               del: of_nat_Suc of_nat_add)
  qed
qed

lemma simulate_loop_Inr:
  assumes "\<forall>j < length rest. advance_person_at_position sc (i + int j) dc = Inr (f j)"
  shows "simulate_loop sc dc rest acc i = Inr (acc @ map f [0..<length rest])"
  using assms
proof (induction rest arbitrary: acc i f)
  case Nil
  then show ?case by simp
next
  case (Cons ind rest)
  from Cons.prems have 0: "advance_person_at_position sc i dc = Inr (f 0)" by force
  have "\<forall>j < length rest. advance_person_at_position sc (i + 1 + int j) dc = Inr (f (Suc j))"
  proof (intro allI impI)
    fix j assume "j < length rest"
    then have "Suc j < length (ind # rest)" by simp
    with Cons.prems have "advance_person_at_position sc (i + int (Suc j)) dc = Inr (f (Suc j))"
      by blast
    moreover have "i + int (Suc j) = i + 1 + int j" by simp
    ultimately show "advance_person_at_position sc (i + 1 + int j) dc = Inr (f (Suc j))"
      by (simp only:)
  qed
  then have "simulate_loop sc dc rest (acc @ [f 0]) (i + 1)
               = Inr ((acc @ [f 0]) @ map (\<lambda>j. f (Suc j)) [0..<length rest])"
    by (rule Cons.IH)
  moreover have "map f [0..<length (ind # rest)] = f 0 # map (\<lambda>j. f (Suc j)) [0..<length rest]"
    by (simp add: upt_conv_Cons map_Suc_upt [symmetric] del: upt_Suc)
  ultimately show ?case using 0 by simp
qed

lemma simulate_loop_sound:
  assumes "simulate_loop sc dc rest acc i = Inr new"
  shows "\<exists>ys. new = acc @ ys \<and> length ys = length rest \<and>
           (\<forall>j < length rest. advance_person_at_position sc (i + int j) dc = Inr (ys ! j))"
  using assms
proof (induction rest arbitrary: acc i)
  case Nil
  then show ?case by simp
next
  case (Cons ind rest)
  from Cons.prems obtain s where s: "advance_person_at_position sc i dc = Inr s"
    and r: "simulate_loop sc dc rest (acc @ [s]) (i + 1) = Inr new"
    by (auto split: sum.splits)
  from Cons.IH [OF r] obtain ys where ys: "new = (acc @ [s]) @ ys" "length ys = length rest"
    and adv: "\<forall>j<length rest. advance_person_at_position sc (i + 1 + int j) dc = Inr (ys ! j)"
    by blast
  have "\<forall>j<length (ind # rest). advance_person_at_position sc (i + int j) dc = Inr ((s # ys) ! j)"
  proof (intro allI impI)
    fix j assume j: "j < length (ind # rest)"
    show "advance_person_at_position sc (i + int j) dc = Inr ((s # ys) ! j)"
    proof (cases j)
      case 0
      with s show ?thesis by simp
    next
      case (Suc k)
      with j have "k < length rest" by simp
      with adv have "advance_person_at_position sc (i + 1 + int k) dc = Inr (ys ! k)" by blast
      moreover have "i + int j = i + 1 + int k" using Suc by simp
      ultimately show ?thesis using Suc by (simp only: nth_Cons_Suc)
    qed
  qed
  moreover have "new = acc @ (s # ys)" using ys by simp
  moreover have "length (s # ys) = length (ind # rest)" using ys by simp
  ultimately show ?case by blast
qed

section \<open>The vaccination pass\<close>

lemma vaccinate_loop_spec:
  "b < length h \<Longrightarrow>
   vaccinate_loop h b ve x g =
     (h[b := take x (h ! b) @ vaccinate_spec ve (drop x (h ! b)) g],
      (\<lambda>n. g (n + count_S (drop x (h ! b)))))"
proof (induction h b ve x g rule: vaccinate_loop.induct)
  case (1 h b ve x g)
  let ?L = "h ! b"
  show ?case
  proof (cases "x < length ?L")
    case False
    then have "vaccinate_loop h b ve x g = (h, g)"
      by (subst vaccinate_loop.simps) simp
    with False show ?thesis by (simp add: count_S_def)
  next
    case True
    then have dr: "drop x ?L = ?L ! x # drop (Suc x) ?L"
      by (simp add: Cons_nth_drop_Suc)
    show ?thesis
    proof (cases "?L ! x = ''S''")
      case notS: False
      have "vaccinate_loop h b ve x g = vaccinate_loop h b ve (x + 1) g"
        using True notS by (subst vaccinate_loop.simps) simp
      also have "\<dots> = (h[b := take (x + 1) ?L @ vaccinate_spec ve (drop (x + 1) ?L) g],
                        (\<lambda>n. g (n + count_S (drop (x + 1) ?L))))"
        using True notS "1.prems" by (rule "1.IH"(3))
      also have "take (x + 1) ?L @ vaccinate_spec ve (drop (x + 1) ?L) g
                   = take x ?L @ vaccinate_spec ve (drop x ?L) g"
        using True notS by (simp add: dr take_Suc_conv_app_nth)
      also have "count_S (drop (x + 1) ?L) = count_S (drop x ?L)"
        using notS by (simp add: dr count_S_def)
      finally show ?thesis .
    next
      case S: True
      let ?g' = "\<lambda>n. g (Suc n)"
      have g': "snd (random_random g) = ?g'" "fst (random_random g) = g 0"
        by (simp_all add: random_random_def)
      have cnt: "(\<lambda>n. ?g' (n + count_S (drop (x + 1) ?L))) = (\<lambda>n. g (n + count_S (drop x ?L)))"
        using S by (simp add: dr count_S_def)
      show ?thesis
      proof (cases "g 0 < ve")
        case lt: True
        let ?h' = "h[b := ?L[x := ''V'']]"
        have hb: "?h' ! b = ?L[x := ''V'']" using "1.prems" by simp
        have "vaccinate_loop h b ve x g = vaccinate_loop ?h' b ve (x + 1) ?g'"
          using True S lt by (subst vaccinate_loop.simps) (simp add: g')
        also have "\<dots> = (?h'[b := take (x + 1) (?h' ! b) @ vaccinate_spec ve (drop (x + 1) (?h' ! b)) ?g'],
                        (\<lambda>n. ?g' (n + count_S (drop (x + 1) (?h' ! b)))))"
          using True S lt "1.prems" g' "1.IH"(1) [OF True S] by simp
        also have "take (x + 1) (?h' ! b) = take x ?L @ [''V'']"
          using True by (simp add: hb take_Suc_conv_app_nth)
        also have "drop (x + 1) (?h' ! b) = drop (x + 1) ?L"
          by (simp add: hb)
        also have "?h'[b := (take x ?L @ [''V'']) @ vaccinate_spec ve (drop (x + 1) ?L) ?g']
                     = h[b := take x ?L @ vaccinate_spec ve (drop x ?L) g]"
          using S lt by (simp add: dr)
        finally show ?thesis by (simp only: cnt)
      next
        case ge: False
        have "vaccinate_loop h b ve x g = vaccinate_loop h b ve (x + 1) ?g'"
          using True S ge by (subst vaccinate_loop.simps) (simp add: g')
        also have "\<dots> = (h[b := take (x + 1) ?L @ vaccinate_spec ve (drop (x + 1) ?L) ?g'],
                        (\<lambda>n. ?g' (n + count_S (drop (x + 1) ?L))))"
          using True S ge "1.prems" g' "1.IH"(2) [OF True S] by simp
        also have "take (x + 1) ?L @ vaccinate_spec ve (drop (x + 1) ?L) ?g'
                     = take x ?L @ vaccinate_spec ve (drop x ?L) g"
          using True S ge by (simp add: dr take_Suc_conv_app_nth)
        finally show ?thesis by (simp only: cnt)
      qed
    qed
  qed
qed

lemma vaccinate_city_store_spec:
  assumes "a < length h"
  shows "vaccinate_city_store h a ve g =
           (h @ [vaccinate_spec ve (h ! a) g], length h, (\<lambda>n. g (n + count_S (h ! a))))"
proof -
  let ?h1 = "h @ [h ! a]"
  have b: "length h < length ?h1" by simp
  have "vaccinate_loop ?h1 (length h) ve 0 g =
          (?h1[length h := take 0 (?h1 ! length h) @ vaccinate_spec ve (drop 0 (?h1 ! length h)) g],
           (\<lambda>n. g (n + count_S (drop 0 (?h1 ! length h)))))"
    using b by (rule vaccinate_loop_spec)
  then have "vaccinate_loop ?h1 (length h) ve 0 g =
          (h @ [vaccinate_spec ve (h ! a) g], (\<lambda>n. g (n + count_S (h ! a))))"
    by simp
  then show ?thesis by (simp add: vaccinate_city_store_def)
qed

lemma vaccinate_city_spec:
  "vaccinate_city city ve g = (vaccinate_spec ve city g, (\<lambda>n. g (n + count_S city)))"
  using vaccinate_city_store_spec [of 0 "[city]" ve g] by (simp add: vaccinate_city_def)

lemma vaccinate_spec_length: "length (vaccinate_spec ve city g) = length city"
  by (induction city arbitrary: g) simp_all

lemma vaccinate_spec_zero: "unit_draws g \<Longrightarrow> vaccinate_spec 0 city g = city"
proof (induction city arbitrary: g)
  case Nil
  then show ?case by simp
next
  case (Cons p ps)
  from Cons.prems have "unit_draws (\<lambda>n. g (Suc n))" and "\<not> g 0 < 0"
    by (auto simp: unit_draws_def not_less)
  with Cons show ?case by simp
qed

lemma vaccinate_spec_render:
  "\<exists>sts'. vaccinate_spec ve (map render sts) g = map render sts' \<and> length sts' = length sts"
proof (induction sts arbitrary: g)
  case Nil
  then show ?case by simp
next
  case (Cons p ps)
  show ?case
  proof (cases "render p = ''S''")
    case True
    from Cons [of "\<lambda>n. g (Suc n)"] obtain ps' where
      ps': "vaccinate_spec ve (map render ps) (\<lambda>n. g (Suc n)) = map render ps'" "length ps' = length ps"
      by blast
    let ?q = "if g 0 < ve then Vaccinated else Susceptible"
    have "vaccinate_spec ve (map render (p # ps)) g = map render (?q # ps')"
      using True ps' by simp
    moreover have "length (?q # ps') = length (p # ps)" using ps' by simp
    ultimately show ?thesis by blast
  next
    case False
    from Cons [of g] obtain ps' where
      ps': "vaccinate_spec ve (map render ps) g = map render ps'" "length ps' = length ps"
      by blast
    have "vaccinate_spec ve (map render (p # ps)) g = map render (p # ps')"
      using False ps' by simp
    moreover have "length (p # ps') = length (p # ps)" using ps' by simp
    ultimately show ?thesis by blast
  qed
qed

lemma simulate_one_day_render:
  "simulate_one_day (map render sts) dc = Inr (map render (step_spec sts dc))"
proof -
  have "simulate_loop (map render sts) dc (map render sts) [] 0
          = Inr ([] @ map (\<lambda>j. render (advance_spec sts j dc)) [0..<length (map render sts)])"
    by (rule simulate_loop_Inr) (simp add: advance_render)
  then show ?thesis by (simp add: simulate_one_day_def step_spec_def)
qed

lemma simulate_one_day_sound:
  assumes "simulate_one_day city dc = Inr new"
  shows "length new = length city \<and>
         (\<forall>i < length city. advance_person_at_position city (int i) dc = Inr (new ! i))"
  using simulate_loop_sound [of city dc city "[]" 0 new] assms
  by (auto simp: simulate_one_day_def)

lemma advance_no_infected:
  assumes "\<forall>s \<in> set city. \<not> has_I s" and "i < length city"
  shows "advance_person_at_position city (int i) dc = Inr (city ! i)"
proof -
  have p: "py_index city (int i) = Inr (city ! i)" using assms by (simp add: py_index_nat)
  have nI: "\<not> has_I (city ! i)" using assms by simp
  show ?thesis
  proof (cases "city ! i = ''S''")
    case True
    have "has_an_infected_neighbor city (int i) =
            Inr ((0 < i \<and> has_I (city ! (i - 1))) \<or> (i + 1 < length city \<and> has_I (city ! (i + 1))))"
      using assms(2) True by (rule neighbor_general)
    moreover have "\<not> has_I (city ! (i - 1))" using assms by simp
    moreover have "i + 1 < length city \<Longrightarrow> \<not> has_I (city ! (i + 1))" using assms by simp
    ultimately have "has_an_infected_neighbor city (int i) = Inr False" by auto
    with nI True show ?thesis
      unfolding advance_person_at_position_def p
      by (simp add: py_if_def py_and_def py_map_def)
  next
    case False
    then have "''S'' \<noteq> city ! i" by auto
    with nI show ?thesis
      unfolding advance_person_at_position_def p
      by (simp add: py_if_def py_and_def py_map_def)
  qed
qed

lemma simulate_one_day_no_infected:
  assumes "\<forall>s \<in> set city. \<not> has_I s"
  shows "simulate_one_day city dc = Inr city"
proof -
  have "simulate_loop city dc city [] 0 = Inr ([] @ map (\<lambda>j. city ! j) [0..<length city])"
    using assms by (intro simulate_loop_Inr) (simp add: advance_no_infected)
  then show ?thesis by (simp add: simulate_one_day_def map_nth)
qed

section \<open>Properties of the simulation\<close>

lemma vaccinate_spec_nth:
  "x < length city \<Longrightarrow>
   vaccinate_spec ve city g ! x =
     (if city ! x = ''S'' \<and> g (count_S (take x city)) < ve then ''V'' else city ! x)"
proof (induction city arbitrary: g x)
  case Nil
  then show ?case by simp
next
  case (Cons p ps)
  show ?case
  proof (cases x)
    case 0
    then show ?thesis by (simp add: count_S_def)
  next
    case (Suc y)
    with Cons.prems have y: "y < length ps" by simp
    show ?thesis
    proof (cases "p = ''S''")
      case True
      with Suc Cons.IH [OF y, of "\<lambda>n. g (Suc n)"] show ?thesis
        by (simp add: count_S_def)
    next
      case False
      with Suc Cons.IH [OF y, of g] show ?thesis
        by (simp add: count_S_def)
    qed
  qed
qed

text \<open>
  C7. For a susceptible person at a position of the city,
  \<open>has_an_infected_neighbor\<close> returns true exactly when the person before or the person
  after (where there is one) is infected, that is, has the letter I in their state:
  at the first position the person at index 1 when the city has more than one person,
  at the last position the person at index N-2, in between either of the two, and
  false in a city of one person.
\<close>

theorem has_an_infected_neighbor_adjacent:
  assumes "i < length city" and "city ! i = ''S''"
  shows "has_an_infected_neighbor city (int i) =
           Inr ((0 < i \<and> has_I (city ! (i - 1))) \<or>
                (i + 1 < length city \<and> has_I (city ! (i + 1))))
         \<and> has_an_infected_neighbor city (int i) =
           Inr (if length city = 1 then False
                else if i = 0 then has_I (city ! 1)
                else if i = length city - 1 then has_I (city ! (length city - 2))
                else has_I (city ! (i - 1)) \<or> has_I (city ! (i + 1)))"
proof -
  have g: "has_an_infected_neighbor city (int i) =
           Inr ((0 < i \<and> has_I (city ! (i - 1))) \<or>
                (i + 1 < length city \<and> has_I (city ! (i + 1))))"
    using assms by (rule neighbor_general)
  have "((0 < i \<and> has_I (city ! (i - 1))) \<or> (i + 1 < length city \<and> has_I (city ! (i + 1))))
        = (if length city = 1 then False
           else if i = 0 then has_I (city ! 1)
           else if i = length city - 1 then has_I (city ! (length city - 2))
           else has_I (city ! (i - 1)) \<or> has_I (city ! (i + 1)))"
  proof -
    consider (single) "length city = 1" "i = 0"
      | (first) "i = 0" "1 < length city"
      | (last) "0 < i" "i + 1 = length city"
      | (inner) "0 < i" "i + 1 < length city"
      using assms(1) by arith
    then show ?thesis
    proof cases
      case single then show ?thesis by simp
    next
      case first then show ?thesis by simp
    next
      case last
      then have "i = length city - 1" "length city - 2 = i - 1" "length city \<noteq> 1" by arith+
      with last show ?thesis by simp
    next
      case inner
      then have "i \<noteq> length city - 1" "length city \<noteq> 1" by arith+
      with inner show ?thesis by simp
    qed
  qed
  with g show ?thesis by simp
qed

theorem has_an_infected_neighbor_adjacent_witness:
  "(1::nat) < length [''I0'', ''S'', ''S''] \<and> [''I0'', ''S'', ''S''] ! 1 = ''S'' \<and>
   has_an_infected_neighbor [''I0'', ''S'', ''S''] 1 = Inr True"
  using has_an_infected_neighbor_adjacent [of 1 "[''I0'', ''S'', ''S'']"]
  by (simp add: has_I_def)

text \<open>
  C6. \<open>simulate_one_day\<close> returns a snapshot of the same length in which every position
  holds the result of \<open>advance_person_at_position\<close> on the snapshot it was given. On the
  person-states of the specification this per-person result is the rule
  \<open>advance_spec\<close>: an infected person with \<open>d + 1 \<ge> days_contagious\<close> recovers, any
  other infected person goes from \<open>d\<close> to \<open>d + 1\<close>, a susceptible person with an
  infected neighbour becomes infected with count 0, everybody else stays the same.
\<close>

theorem simulate_one_day_synchronous:
  "simulate_one_day (map render sts) dc = Inr (map render (step_spec sts dc))
   \<and> length (step_spec sts dc) = length sts
   \<and> (\<forall>i < length sts.
         advance_person_at_position (map render sts) (int i) dc = Inr (render (advance_spec sts i dc))
         \<and> step_spec sts dc ! i = advance_spec sts i dc)
   \<and> (simulate_one_day city dc = Inr new \<longrightarrow>
         length new = length city \<and>
         (\<forall>i < length city. advance_person_at_position city (int i) dc = Inr (new ! i)))"
proof (intro conjI allI impI)
  show "simulate_one_day (map render sts) dc = Inr (map render (step_spec sts dc))"
    by (rule simulate_one_day_render)
  show "length (step_spec sts dc) = length sts"
    by (simp add: step_spec_def)
next
  fix i assume "i < length sts"
  then show "advance_person_at_position (map render sts) (int i) dc
               = Inr (render (advance_spec sts i dc))"
    by (rule advance_render)
  from \<open>i < length sts\<close> show "step_spec sts dc ! i = advance_spec sts i dc"
    by (simp add: step_spec_def)
next
  assume r: "simulate_one_day city dc = Inr new"
  from simulate_one_day_sound [OF r] show "length new = length city" by simp
  fix i assume "i < length city"
  with simulate_one_day_sound [OF r]
  show "advance_person_at_position city (int i) dc = Inr (new ! i)" by simp
qed

lemma day1_eval:
  "simulate_one_day [''S'', ''I0'', ''S''] 2 = Inr [''I0'', ''I1'', ''I0'']"
  by code_simp

theorem simulate_one_day_synchronous_witness:
  "simulate_one_day [''S'', ''I0'', ''S''] 2 = Inr [''I0'', ''I1'', ''I0'']
   \<and> (0::nat) < length [Susceptible, Infected 0, Susceptible]
   \<and> advance_person_at_position [''S'', ''I0'', ''S''] 0 2 = Inr ''I0''
   \<and> advance_person_at_position [''S'', ''I0'', ''S''] 1 2 = Inr ''I1''"
proof -
  have r: "map render [Susceptible, Infected 0, Susceptible] = [''S'', ''I0'', ''S'']"
    by (simp add: py_str_0)
  have a0: "render (advance_spec [Susceptible, Infected 0, Susceptible] 0 2) = ''I0''"
    by (simp add: advance_spec_def neighbor_spec_def py_str_0)
  note t = simulate_one_day_synchronous
             [of "[Susceptible, Infected 0, Susceptible]" 2 "[''S'', ''I0'', ''S'']"
                 "[''I0'', ''I1'', ''I0'']"]
  from t have adv: "\<And>i. i < 3 \<Longrightarrow> advance_person_at_position [''S'', ''I0'', ''S''] (int i) 2
                     = Inr (render (advance_spec [Susceptible, Infected 0, Susceptible] i 2))"
    by (simp add: py_str_0)
  from adv [of 0] have p0: "advance_person_at_position [''S'', ''I0'', ''S''] 0 2 = Inr ''I0''"
    by (simp add: a0)
  from t day1_eval have nth: "\<And>i. i < 3 \<Longrightarrow> advance_person_at_position [''S'', ''I0'', ''S''] (int i) 2
                     = Inr ([''I0'', ''I1'', ''I0''] ! i)"
    by simp
  from nth [of 1] have p1: "advance_person_at_position [''S'', ''I0'', ''S''] 1 2 = Inr ''I1''"
    by simp
  from day1_eval p0 p1 show ?thesis by simp
qed

text \<open>
  C9. A snapshot in which nobody is infected (no state has the letter I, as is the case
  when every state is S, R or V) comes back unchanged from \<open>simulate_one_day\<close>.
\<close>

theorem simulate_one_day_fixed_point:
  assumes "\<forall>s \<in> set city. \<not> has_I s"
  shows "simulate_one_day city dc = Inr city"
  using assms by (rule simulate_one_day_no_infected)

theorem simulate_one_day_fixed_point_witness:
  "\<not> has_I ''S'' \<and> \<not> has_I ''R'' \<and> \<not> has_I ''V''
   \<and> simulate_one_day [''S'', ''R'', ''V'', ''S''] 2 = Inr [''S'', ''R'', ''V'', ''S'']"
proof -
  have h: "\<forall>s \<in> set [''S'', ''R'', ''V'', ''S'']. \<not> has_I s"
    by (simp add: has_I_def)
  from simulate_one_day_fixed_point [OF h, of 2] show ?thesis
    by (simp add: has_I_def)
qed

text \<open>
  C8. \<open>vaccinate_city\<close> creates a new list and leaves every list of the store as it
  was, the argument included. The new list is the argument with the rule of the
  specification applied: the susceptible person at position \<open>x\<close> takes draw number
  \<open>count_S (take x city)\<close>, the number of susceptible people before them, and becomes
  vaccinated exactly when that draw is below the effectiveness; every other person is
  unchanged. The generator has then dropped one draw per susceptible person. With
  effectiveness 0 and draws in the unit interval the new list equals the argument.
\<close>

theorem vaccinate_city_draws:
  assumes "a < length h"
  shows "vaccinate_city_store h a ve g =
           (h @ [vaccinate_spec ve (h ! a) g], length h, (\<lambda>n. g (n + count_S (h ! a))))
         \<and> vaccinate_city city ve g = (vaccinate_spec ve city g, (\<lambda>n. g (n + count_S city)))
         \<and> length (vaccinate_spec ve city g) = length city
         \<and> (\<forall>x < length city.
               vaccinate_spec ve city g ! x =
                 (if city ! x = ''S'' \<and> g (count_S (take x city)) < ve then ''V'' else city ! x))
         \<and> (unit_draws g \<longrightarrow>
               fst (vaccinate_city city 0 g) = city
               \<and> snd (vaccinate_city city 0 g) = (\<lambda>n. g (n + count_S city)))"
proof (intro conjI allI impI)
  show "vaccinate_city_store h a ve g =
          (h @ [vaccinate_spec ve (h ! a) g], length h, (\<lambda>n. g (n + count_S (h ! a))))"
    using assms by (rule vaccinate_city_store_spec)
  show "vaccinate_city city ve g = (vaccinate_spec ve city g, (\<lambda>n. g (n + count_S city)))"
    by (rule vaccinate_city_spec)
  show "length (vaccinate_spec ve city g) = length city"
    by (rule vaccinate_spec_length)
next
  fix x assume "x < length city"
  then show "vaccinate_spec ve city g ! x =
               (if city ! x = ''S'' \<and> g (count_S (take x city)) < ve then ''V'' else city ! x)"
    by (rule vaccinate_spec_nth)
next
  assume "unit_draws g"
  then show "fst (vaccinate_city city 0 g) = city"
    by (simp add: vaccinate_city_spec vaccinate_spec_zero)
  show "snd (vaccinate_city city 0 g) = (\<lambda>n. g (n + count_S city))"
    by (simp add: vaccinate_city_spec)
qed

theorem vaccinate_city_draws_witness:
  "(0::nat) < length [[''S'', ''I0'', ''S'']]
   \<and> fst (vaccinate_city_store [[''S'', ''I0'', ''S'']] 0 (1/2) (\<lambda>n. if n = 0 then 1/4 else 3/4))
       = [[''S'', ''I0'', ''S''], [''V'', ''I0'', ''S'']]
   \<and> unit_draws (\<lambda>n. if n = 0 then 1/4 else 3/4)
   \<and> fst (vaccinate_city [''S'', ''I0'', ''S''] 0 (\<lambda>n. if n = 0 then 1/4 else 3/4))
       = [''S'', ''I0'', ''S'']
   \<and> vaccinate_spec (1/2) [''S'', ''I0'', ''S''] (\<lambda>n. if n = 0 then 1/4 else 3/4) ! 2 = ''S''"
proof -
  let ?g = "\<lambda>n::nat. if n = 0 then 1/4 else (3/4::real)"
  have u: "unit_draws ?g" by (simp add: unit_draws_def)
  have l: "(0::nat) < length [[''S'', ''I0'', ''S'']]" by simp
  note t = vaccinate_city_draws [OF l, of "1/2" ?g "[''S'', ''I0'', ''S'']"]
  from t have 1: "fst (vaccinate_city_store [[''S'', ''I0'', ''S'']] 0 (1/2) ?g)
                    = [[''S'', ''I0'', ''S''], [''V'', ''I0'', ''S'']]"
    by simp
  from t u have 2: "fst (vaccinate_city [''S'', ''I0'', ''S''] 0 ?g) = [''S'', ''I0'', ''S'']"
    by blast
  from t have "\<And>x. x < 3 \<Longrightarrow> vaccinate_spec (1/2) [''S'', ''I0'', ''S''] ?g ! x =
                 (if [''S'', ''I0'', ''S''] ! x = ''S'' \<and> ?g (count_S (take x [''S'', ''I0'', ''S''])) < 1/2
                  then ''V'' else [''S'', ''I0'', ''S''] ! x)"
    by simp
  from this [of 2] have 3: "vaccinate_spec (1/2) [''S'', ''I0'', ''S''] ?g ! 2 = ''S''"
    by (simp add: count_S_def)
  from l 1 u 2 3 show ?thesis by blast
qed

text \<open>
  C4. With an integer seed, the result of \<open>run_simulation\<close> (final snapshot and number
  of days, or the exception) is the same whatever the generator and the system's
  entropy were before the call: two calls with the same arguments give the same result.
\<close>

theorem run_simulation_deterministic:
  "fst (run_simulation mt city dc (Some k) ve w) = fst (run_simulation mt city dc (Some k) ve w')"
  by (simp add: run_simulation_def random_seed_def Let_def split_def)

section \<open>The driver\<close>

lemma run_loop_render:
  "\<exists>n \<le> k. run_loop k dc (map render sts) d0 = Inr (map render (days_spec n dc sts), d0 + int n)
            \<and> (n < k \<longrightarrow> \<not> has_I (concat (map render (days_spec n dc sts))))"
proof (induction k arbitrary: sts d0)
  case 0
  then show ?case by (simp add: days_spec_def)
next
  case (Suc k)
  show ?case
  proof (cases "has_I (concat (map render sts))")
    case False
    then have "run_loop (Suc k) dc (map render sts) d0 = Inr (map render (days_spec 0 dc sts), d0 + int 0)
               \<and> (0 < Suc k \<longrightarrow> \<not> has_I (concat (map render (days_spec 0 dc sts))))"
      by (simp add: days_spec_def)
    then show ?thesis by blast
  next
    case True
    from Suc [of "step_spec sts dc" "d0 + 1"] obtain n where n: "n \<le> k"
      and r: "run_loop k dc (map render (step_spec sts dc)) (d0 + 1)
                = Inr (map render (days_spec n dc (step_spec sts dc)), d0 + 1 + int n)"
      and c: "n < k \<longrightarrow> \<not> has_I (concat (map render (days_spec n dc (step_spec sts dc))))"
      by blast
    have d: "days_spec n dc (step_spec sts dc) = days_spec (Suc n) dc sts"
      using funpow_swap1 [of "\<lambda>s. step_spec s dc" n sts] by (simp add: days_spec_def)
    have "run_loop (Suc k) dc (map render sts) d0
            = run_loop k dc (map render (step_spec sts dc)) (d0 + 1)"
      using True by (simp add: simulate_one_day_render)
    also have "\<dots> = Inr (map render (days_spec (Suc n) dc sts), d0 + int (Suc n))"
      using r d by simp
    finally have "run_loop (Suc k) dc (map render sts) d0
                    = Inr (map render (days_spec (Suc n) dc sts), d0 + int (Suc n))" .
    moreover have "Suc n < Suc k \<longrightarrow> \<not> has_I (concat (map render (days_spec (Suc n) dc sts)))"
      using c d by simp
    moreover have "Suc n \<le> Suc k" using n by simp
    ultimately show ?thesis by blast
  qed
qed

lemma run_simulation_fst:
  "fst (run_simulation mt city dc seed ve w) =
     run_loop (nat (int (length city) + dc)) dc
       (vaccinate_spec ve city (rng (random_seed mt seed w))) 0"
  by (simp add: run_simulation_def Let_def vaccinate_city_spec)

lemma run_simulation_render:
  "\<exists>sts0 n. map render sts0 = vaccinate_spec ve (map render sts) (rng (random_seed mt seed w))
     \<and> length sts0 = length sts
     \<and> n \<le> nat (int (length sts) + dc)
     \<and> fst (run_simulation mt (map render sts) dc seed ve w)
           = Inr (map render (days_spec n dc sts0), int n)
     \<and> (n < nat (int (length sts) + dc) \<longrightarrow> \<not> has_I (concat (map render (days_spec n dc sts0))))"
proof -
  let ?g = "rng (random_seed mt seed w)"
  let ?k = "nat (int (length sts) + dc)"
  from vaccinate_spec_render [of ve sts ?g] obtain sts0 where
    v: "vaccinate_spec ve (map render sts) ?g = map render sts0" and l: "length sts0 = length sts"
    by blast
  from run_loop_render [of ?k dc sts0 0] obtain n where n: "n \<le> ?k"
    and r: "run_loop ?k dc (map render sts0) 0 = Inr (map render (days_spec n dc sts0), 0 + int n)"
    and c: "n < ?k \<longrightarrow> \<not> has_I (concat (map render (days_spec n dc sts0)))"
    by blast
  have "fst (run_simulation mt (map render sts) dc seed ve w)
          = Inr (map render (days_spec n dc sts0), int n)"
    using r v by (simp add: run_simulation_fst)
  with v l n c show ?thesis by metis
qed

lemma day2_eval:
  "simulate_one_day [''I0'', ''I1'', ''I0''] 2 = Inr [''I1'', ''R'', ''I1'']"
  by code_simp

lemma day3_eval:
  "simulate_one_day [''I1'', ''R'', ''I1''] 2 = Inr [''R'', ''R'', ''R'']"
  by code_simp

lemma run_loop_scenario:
  "run_loop 5 2 [''S'', ''I0'', ''S''] 0 = Inr ([''R'', ''R'', ''R''], 3)"
  by code_simp

lemma example_draws_unit: "unit_draws example_draws"
  by (simp add: unit_draws_def example_draws_def)

lemma example_seeded: "rng (random_seed example_mt (Some k) w) = example_draws"
  by (simp add: random_seed_def example_mt_def)

text \<open>
  C1, as the program behaves. The second day of the scenario is not all recovered: the
  two people infected on day 1 have count 0, and \<open>0 + 1 \<ge> 2\<close> is false.
\<close>

theorem scenario_day2_counterexample:
  "simulate_one_day [''I0'', ''I1'', ''I0''] 2 = Inr [''I1'', ''R'', ''I1'']
   \<and> simulate_one_day [''I0'', ''I1'', ''I0''] 2 \<noteq> Inr [''R'', ''R'', ''R'']
   \<and> fst (run_simulation example_mt [''S'', ''I0'', ''S''] 2 (Some 1) 0 example_world)
        = Inr ([''R'', ''R'', ''R''], 3)"
proof -
  have "vaccinate_spec 0 [''S'', ''I0'', ''S''] example_draws = [''S'', ''I0'', ''S'']"
    by (rule vaccinate_spec_zero [OF example_draws_unit])
  then have "fst (run_simulation example_mt [''S'', ''I0'', ''S''] 2 (Some 1) 0 example_world)
               = Inr ([''R'', ''R'', ''R''], 3)"
    by (simp add: run_simulation_fst example_seeded run_loop_scenario)
  then show ?thesis by (simp add: day2_eval)
qed

text \<open>
  C1, amended. From \<open>["S","I0","S"]\<close> with \<open>days_contagious = 2\<close> and effectiveness 0 the
  snapshots are \<open>["I0","I1","I0"]\<close> after day 1, \<open>["I1","R","I1"]\<close> after day 2 and
  \<open>["R","R","R"]\<close> after day 3, and \<open>run_simulation\<close> returns 3 days, for every seed,
  when the draws lie in the unit interval.
\<close>

theorem scenario_three_days:
  assumes "unit_draws (rng (random_seed mt seed w))"
  shows "simulate_one_day [''S'', ''I0'', ''S''] 2 = Inr [''I0'', ''I1'', ''I0'']
         \<and> simulate_one_day [''I0'', ''I1'', ''I0''] 2 = Inr [''I1'', ''R'', ''I1'']
         \<and> simulate_one_day [''I1'', ''R'', ''I1''] 2 = Inr [''R'', ''R'', ''R'']
         \<and> fst (run_simulation mt [''S'', ''I0'', ''S''] 2 seed 0 w) = Inr ([''R'', ''R'', ''R''], 3)"
proof -
  have "vaccinate_spec 0 [''S'', ''I0'', ''S''] (rng (random_seed mt seed w)) = [''S'', ''I0'', ''S'']"
    by (rule vaccinate_spec_zero [OF assms])
  then have "fst (run_simulation mt [''S'', ''I0'', ''S''] 2 seed 0 w) = Inr ([''R'', ''R'', ''R''], 3)"
    by (simp add: run_simulation_fst run_loop_scenario)
  then show ?thesis by (simp add: day1_eval day2_eval day3_eval)
qed

theorem scenario_three_days_witness:
  "unit_draws (rng (random_seed example_mt (Some 7) example_world))
   \<and> fst (run_simulation example_mt [''S'', ''I0'', ''S''] 2 (Some 7) 0 example_world)
       = Inr ([''R'', ''R'', ''R''], 3)"
proof -
  have u: "unit_draws (rng (random_seed example_mt (Some 7) example_world))"
    by (simp add: example_seeded example_draws_unit)
  from scenario_three_days [OF u] u show ?thesis by blast
qed

lemma run_loop_cutoff:
  "run_loop 2 (- 2) [''I0'', ''S'', ''S'', ''S''] 0 = Inr ([''R'', ''R'', ''I0'', ''S''], 2)"
  by code_simp

text \<open>
  C3, as the program behaves. With \<open>len(starting_city) + days_contagious\<close> below zero
  the range is empty and the number of days returned, 0, is above that sum.
\<close>

theorem run_simulation_negative_bound_counterexample:
  "fst (run_simulation example_mt [''S''] (- 2) (Some 1) 0 example_world) = Inr ([''S''], 0)
   \<and> \<not> (0::int) \<le> int (length [''S'']) + (- 2)"
proof -
  have "vaccinate_spec 0 [''S''] example_draws = [''S'']"
    by (rule vaccinate_spec_zero [OF example_draws_unit])
  then show ?thesis
    by (simp add: run_simulation_fst example_seeded)
qed

text \<open>
  C3, amended. For every snapshot of person-states, of length \<open>N\<close>, every
  \<open>days_contagious\<close>, seed and effectiveness, \<open>run_simulation\<close> returns, without an
  exception, the vaccinated snapshot advanced by \<open>n\<close> days together with \<open>n\<close>, where
  \<open>n\<close> is at most \<open>max 0 (N + days_contagious)\<close>, so at most \<open>N + days_contagious\<close>
  whenever that is not negative; when \<open>n\<close> is below the bound nobody is infected in the
  result, and when the bound is reached the snapshot of that day is returned as it is.
\<close>

theorem run_simulation_bounded:
  "\<exists>sts0 n.
     fst (run_simulation mt (map render sts) dc seed ve w)
       = Inr (map render (days_spec n dc sts0), int n)
     \<and> map render sts0 = fst (vaccinate_city (map render sts) ve (rng (random_seed mt seed w)))
     \<and> length sts0 = length sts
     \<and> int n \<le> max 0 (int (length sts) + dc)
     \<and> (int n < max 0 (int (length sts) + dc)
          \<longrightarrow> \<not> has_I (concat (map render (days_spec n dc sts0))))"
proof -
  from run_simulation_render [of ve sts mt seed w dc] obtain sts0 n where
    v: "map render sts0 = vaccinate_spec ve (map render sts) (rng (random_seed mt seed w))"
    and l: "length sts0 = length sts"
    and n: "n \<le> nat (int (length sts) + dc)"
    and r: "fst (run_simulation mt (map render sts) dc seed ve w)
              = Inr (map render (days_spec n dc sts0), int n)"
    and c: "n < nat (int (length sts) + dc)
              \<longrightarrow> \<not> has_I (concat (map render (days_spec n dc sts0)))"
    by blast
  from v have v': "map render sts0
                     = fst (vaccinate_city (map render sts) ve (rng (random_seed mt seed w)))"
    by (simp add: vaccinate_city_spec)
  from n have n': "int n \<le> max 0 (int (length sts) + dc)" by arith
  have "int n < max 0 (int (length sts) + dc) \<Longrightarrow> n < nat (int (length sts) + dc)" by arith
  with c have c': "int n < max 0 (int (length sts) + dc)
                     \<longrightarrow> \<not> has_I (concat (map render (days_spec n dc sts0)))"
    by blast
  from r v' l n' c' show ?thesis by blast
qed

theorem run_simulation_bounded_witness:
  "fst (run_simulation example_mt [''I0'', ''S'', ''S'', ''S''] (- 2) (Some 1) 0 example_world)
     = Inr ([''R'', ''R'', ''I0'', ''S''], 2)
   \<and> (2::int) \<le> max 0 (int (length [Infected 0, Susceptible, Susceptible, Susceptible]) + (- 2))
   \<and> has_I (concat [''R'', ''R'', ''I0'', ''S''])"
proof -
  let ?sts = "[Infected 0, Susceptible, Susceptible, Susceptible]"
  have m: "map render ?sts = [''I0'', ''S'', ''S'', ''S'']" by (simp add: py_str_0)
  have "vaccinate_spec 0 [''I0'', ''S'', ''S'', ''S''] example_draws = [''I0'', ''S'', ''S'', ''S'']"
    by (rule vaccinate_spec_zero [OF example_draws_unit])
  then have e: "fst (run_simulation example_mt [''I0'', ''S'', ''S'', ''S''] (- 2) (Some 1) 0 example_world)
             = Inr ([''R'', ''R'', ''I0'', ''S''], 2)"
    by (simp add: run_simulation_fst example_seeded run_loop_cutoff)
  from run_simulation_bounded [of example_mt ?sts "- 2" "Some 1" 0 example_world]
  obtain sts0 n where
    r: "fst (run_simulation example_mt (map render ?sts) (- 2) (Some 1) 0 example_world)
          = Inr (map render (days_spec n (- 2) sts0), int n)"
    and b: "int n \<le> max 0 (int (length ?sts) + (- 2))"
    by blast
  from r e m have "int n = 2" by simp
  with b have "(2::int) \<le> max 0 (int (length ?sts) + (- 2))" by simp
  with e show ?thesis by (simp add: has_I_def)
qed

text \<open>
  C10. With \<open>days_contagious \<le> 0\<close> an infected person, whatever their count, is
  recovered after one day: \<open>advance_person_at_position\<close> returns \<open>"R"\<close> for them, so does
  the snapshot of the next day, and \<open>run_simulation\<close> returns a result.
\<close>

theorem nonpositive_days_contagious:
  assumes "dc \<le> 0" and "i < length sts" and "sts ! i = Infected d"
  shows "advance_person_at_position (map render sts) (int i) dc = Inr ''R''
         \<and> (\<exists>new. simulate_one_day (map render sts) dc = Inr new
                \<and> length new = length sts \<and> new ! i = ''R'')
         \<and> (\<exists>c n. fst (run_simulation mt (map render sts) dc seed ve w) = Inr (c, n))"
proof -
  from assms have a: "advance_spec sts i dc = Recovered"
    by (simp add: advance_spec_def)
  with assms(2) have 1: "advance_person_at_position (map render sts) (int i) dc = Inr ''R''"
    by (simp add: advance_render)
  have s: "simulate_one_day (map render sts) dc = Inr (map render (step_spec sts dc))"
    by (rule simulate_one_day_render)
  have "map render (step_spec sts dc) ! i = ''R''"
    using assms(2) a by (simp add: step_spec_def)
  moreover have "length (map render (step_spec sts dc)) = length sts"
    by (simp add: step_spec_def)
  ultimately have 2: "\<exists>new. simulate_one_day (map render sts) dc = Inr new
                        \<and> length new = length sts \<and> new ! i = ''R''"
    using s by blast
  from run_simulation_render [of ve sts mt seed w dc]
  have 3: "\<exists>c n. fst (run_simulation mt (map render sts) dc seed ve w) = Inr (c, n)"
    by blast
  from 1 2 3 show ?thesis by blast
qed

theorem nonpositive_days_contagious_witness:
  "advance_person_at_position [''I3'', ''S''] 0 0 = Inr ''R''
   \<and> (\<exists>c n. fst (run_simulation example_mt [''I3'', ''S''] 0 (Some 1) 0 example_world) = Inr (c, n))"
proof -
  have m: "py_str 3 = ''3''"
    by (simp add: py_str_def nat_digits.simps [of 3] digit_char_def)
  have "(0::int) \<le> 0" "(0::nat) < length [Infected 3, Susceptible]"
       "[Infected 3, Susceptible] ! 0 = Infected 3"
    by simp_all
  from nonpositive_days_contagious [OF this, of example_mt "Some 1" 0 example_world]
  show ?thesis by (simp add: m)
qed

lemma py_int_digit: "is_digit c \<Longrightarrow> \<exists>v. py_int [c] = Inr v"
proof -
  assume d: "is_digit c"
  then have "\<not> int_isspace c" by (rule is_digit_not_space)
  then have s: "int_strip [c] = [c]" by (simp add: int_strip_def)
  from d have "c \<noteq> CHR ''-''" "c \<noteq> CHR ''+''" using is_digit_simps by auto
  moreover from d obtain v where "digit_val c = Some v" by (auto simp: is_digit_def)
  ultimately show ?thesis by (simp add: py_int_def s py_digits_def)
qed

lemma py_str_nat_first: "\<exists>c cs. py_str (int d) = c # cs \<and> is_digit c"
proof -
  have ne: "nat_digits d \<noteq> []" by (rule nat_digits_nonempty)
  then obtain c cs where cs: "nat_digits d = c # cs" by (cases "nat_digits d") auto
  then have "c \<in> set (nat_digits d)" by simp
  then have "is_digit c" by (rule nat_digits_all)
  with cs show ?thesis by (simp add: py_str_def)
qed

text \<open>
  C2, as the program behaves. The check in \<open>cmd\<close> turns \<open>"V"\<close> down, and lets
  \<open>"I1x"\<close> through, because it converts only the character after the I.
\<close>

theorem check_person_counterexample:
  "check_person ''V'' = Inr False \<and> check_person ''I1x'' = Inr True
   \<and> cmd_city ''S, V'' = Inr False \<and> cmd_city ''S, I1x'' = Inr True"
  by code_simp

text \<open>
  C2, amended. The check accepts \<open>"S"\<close>, \<open>"R"\<close> and every \<open>"I"\<close> followed by a
  non-negative integer, and turns down with its error message every other token that
  is not empty and does not start with I, \<open>"V"\<close> among them. (Nothing is said here
  about the other tokens that start with I.)
\<close>

theorem check_person_forms:
  "check_person ''S'' = Inr True
   \<and> check_person ''R'' = Inr True
   \<and> check_person (CHR ''I'' # py_str (int d)) = Inr True
   \<and> check_person ''V'' = Inr False
   \<and> (p \<noteq> [] \<and> hd p \<noteq> CHR ''I'' \<and> p \<noteq> ''S'' \<and> p \<noteq> ''R'' \<longrightarrow> check_person p = Inr False)"
proof (intro conjI impI)
  show "check_person ''S'' = Inr True" "check_person ''R'' = Inr True"
       "check_person ''V'' = Inr False"
    by (simp_all add: check_person_def py_index_def)
next
  from py_str_nat_first [of d] obtain c cs where cs: "py_str (int d) = c # cs" and dc: "is_digit c"
    by blast
  from py_int_digit [OF dc] obtain v where "py_int [c] = Inr v" by blast
  then show "check_person (CHR ''I'' # py_str (int d)) = Inr True"
    by (simp add: check_person_def py_index_def cs)
next
  assume a: "p \<noteq> [] \<and> hd p \<noteq> CHR ''I'' \<and> p \<noteq> ''S'' \<and> p \<noteq> ''R''"
  then obtain c cs where p: "p = c # cs" by (cases p) auto
  with a show "check_person p = Inr False"
    by (simp add: check_person_def py_index_def)
qed

theorem check_person_forms_witness:
  "check_person ''I12'' = Inr True \<and> check_person ''X'' = Inr False"
proof -
  have m: "py_str 12 = ''12''"
    by (simp add: py_str_def nat_digits.simps [of 12] nat_digits.simps [of "Suc 0"] digit_char_def)
  from check_person_forms [of 12 "''X''"] show ?thesis
    by (simp add: m)
qed

section \<open>The trials and their average\<close>

lemma run_simulation_total:
  "\<exists>c n w'. run_simulation mt (map render sts) dc seed ve w = (Inr (c, n), w')"
proof -
  from run_simulation_render [of ve sts mt seed w dc]
  obtain c n where "fst (run_simulation mt (map render sts) dc seed ve w) = Inr (c, n)"
    by blast
  then show ?thesis by (metis prod.collapse)
qed

lemma run_simulation_seeded:
  "seeded (snd (run_simulation mt city dc seed ve w)) = seeded w @ [seed]"
  by (simp add: run_simulation_def random_seed_def Let_def split_def split: option.splits)

lemma upt_map_shift:
  "map f [0..<Suc k] = f 0 # map (\<lambda>i. f (Suc i)) [0..<k]"
  by (simp add: upt_conv_Cons map_Suc_upt [symmetric] del: upt_Suc)

lemma trials_loop_render:
  "\<exists>ds w'. trials_loop mt (map render sts) dc ve k dl (Some s) w = (Inr (dl @ ds), w')
     \<and> length ds = k
     \<and> (\<forall>i < k. \<exists>c. fst (run_simulation mt (map render sts) dc (Some (s + int i)) ve w0)
                        = Inr (c, ds ! i))
     \<and> seeded w' = seeded w @ map (\<lambda>i. Some (s + int i)) [0..<k]"
proof (induction k arbitrary: dl s w)
  case 0
  then show ?case by simp
next
  case (Suc k)
  from run_simulation_total [of mt sts dc "Some s" ve w] obtain c n w1 where
    r: "run_simulation mt (map render sts) dc (Some s) ve w = (Inr (c, n), w1)" by blast
  have r0: "fst (run_simulation mt (map render sts) dc (Some s) ve w0) = Inr (c, n)"
    using r run_simulation_fst [of mt "map render sts" dc "Some s" ve w]
          run_simulation_fst [of mt "map render sts" dc "Some s" ve w0]
    by (simp add: random_seed_def)
  have s1: "seeded w1 = seeded w @ [Some s]"
    using r run_simulation_seeded [of mt "map render sts" dc "Some s" ve w] by simp
  from Suc [of "dl @ [n]" "s + 1" w1] obtain ds w' where
    t: "trials_loop mt (map render sts) dc ve k (dl @ [n]) (Some (s + 1)) w1
          = (Inr ((dl @ [n]) @ ds), w')"
    and l: "length ds = k"
    and a: "\<forall>i < k. \<exists>c. fst (run_simulation mt (map render sts) dc (Some (s + 1 + int i)) ve w0)
                          = Inr (c, ds ! i)"
    and sd: "seeded w' = seeded w1 @ map (\<lambda>i. Some (s + 1 + int i)) [0..<k]"
    by blast
  have 1: "trials_loop mt (map render sts) dc ve (Suc k) dl (Some s) w = (Inr (dl @ (n # ds)), w')"
    using r t by simp
  have 2: "length (n # ds) = Suc k" using l by simp
  have 3: "\<forall>i < Suc k. \<exists>c. fst (run_simulation mt (map render sts) dc (Some (s + int i)) ve w0)
                             = Inr (c, (n # ds) ! i)"
  proof (intro allI impI)
    fix i assume i: "i < Suc k"
    show "\<exists>c. fst (run_simulation mt (map render sts) dc (Some (s + int i)) ve w0)
                 = Inr (c, (n # ds) ! i)"
    proof (cases i)
      case 0
      with r0 show ?thesis by simp
    next
      case (Suc j)
      with i have "j < k" by simp
      with a obtain c' where
        "fst (run_simulation mt (map render sts) dc (Some (s + 1 + int j)) ve w0) = Inr (c', ds ! j)"
        by blast
      moreover have "s + int i = s + 1 + int j" using Suc by simp
      ultimately show ?thesis using Suc by (simp only: nth_Cons_Suc) blast
    qed
  qed
  have "map (\<lambda>i. Some (s + int i)) [0..<Suc k]
          = Some (s + int 0) # map (\<lambda>i. Some (s + int (Suc i))) [0..<k]"
    by (rule upt_map_shift)
  also have "\<dots> = Some s # map (\<lambda>i. Some (s + 1 + int i)) [0..<k]"
    by (simp add: ac_simps)
  finally have 4: "seeded w' = seeded w @ map (\<lambda>i. Some (s + int i)) [0..<Suc k]"
    using sd s1 by simp
  from 1 2 3 4 show ?case by blast
qed

lemma calc_avg_render:
  assumes "0 < num_trials"
  shows "\<exists>ds w'.
           calc_avg_days_to_zero_infections mt (map render sts) dc (Some s) ve num_trials w
             = (py_truediv (sum_list ds) num_trials, w')
           \<and> length ds = nat num_trials
           \<and> (\<forall>i < nat num_trials.
                 \<exists>c. fst (run_simulation mt (map render sts) dc (Some (s + int i)) ve w0)
                        = Inr (c, ds ! i))
           \<and> seeded w' = seeded w @ map (\<lambda>i. Some (s + int i)) [0..<nat num_trials]"
proof -
  from trials_loop_render [of mt sts dc ve "nat num_trials" "[]" s w w0] obtain ds w' where
    t: "trials_loop mt (map render sts) dc ve (nat num_trials) [] (Some s) w = (Inr ([] @ ds), w')"
    and l: "length ds = nat num_trials"
    and a: "\<forall>i < nat num_trials.
              \<exists>c. fst (run_simulation mt (map render sts) dc (Some (s + int i)) ve w0)
                     = Inr (c, ds ! i)"
    and sd: "seeded w' = seeded w @ map (\<lambda>i. Some (s + int i)) [0..<nat num_trials]"
    by blast
  from assms l have le: "int (length ds) = num_trials" by simp
  have "calc_avg_days_to_zero_infections mt (map render sts) dc (Some s) ve num_trials w
          = (py_truediv (sum_list ds) (int (length ds)), w')"
    using assms t by (simp add: calc_avg_days_to_zero_infections_def)
  then have "calc_avg_days_to_zero_infections mt (map render sts) dc (Some s) ve num_trials w
          = (py_truediv (sum_list ds) num_trials, w')"
    by (simp only: le)
  with l a sd show ?thesis by blast
qed

lemma round_half_even_near: "\<bar>real_of_int (round_half_even x) - x\<bar> \<le> 1 / 2"
proof -
  have "0 \<le> x - real_of_int \<lfloor>x\<rfloor>" "x - real_of_int \<lfloor>x\<rfloor> < 1" by linarith+
  then show ?thesis by (auto simp: round_half_even_def Let_def)
qed

lemma pow2_pos: "0 < pow2 k"
  by (simp add: pow2_def)

lemma py_truediv_near:
  assumes "py_truediv a b = Inr r"
  shows "\<bar>r - real_of_int a / real_of_int b\<bar>
           \<le> pow2 (max (quotient_exponent \<bar>a\<bar> \<bar>b\<bar>) (- 1022) - 52) / 2"
proof -
  let ?ulp = "pow2 (max (quotient_exponent \<bar>a\<bar> \<bar>b\<bar>) (- 1022) - 52)"
  let ?x = "\<bar>real_of_int a / real_of_int b\<bar>"
  let ?m = "real_of_int (round_half_even (?x / ?ulp))"
  have u: "0 < ?ulp" by (rule pow2_pos)
  from assms have b: "b \<noteq> 0" by (auto simp: py_truediv_def)
  show ?thesis
  proof (cases "a = 0")
    case True
    with assms b have "r = 0" by (simp add: py_truediv_def)
    with True u show ?thesis by simp
  next
    case False
    from assms b False have r: "r = (if (a < 0) = (b < 0) then ?m * ?ulp else - (?m * ?ulp))"
      by (auto simp: py_truediv_def Let_def split: if_splits)
    have q: "real_of_int a / real_of_int b = (if (a < 0) = (b < 0) then ?x else - ?x)"
      using b False by (auto simp: abs_if divide_less_0_iff zero_less_divide_iff not_less
                              dest: order.strict_implies_order)
    have "\<bar>r - real_of_int a / real_of_int b\<bar> = \<bar>?m * ?ulp - ?x\<bar>"
      by (subst q, subst r) (simp add: abs_minus_commute)
    also have "?m * ?ulp - ?x = (?m - ?x / ?ulp) * ?ulp"
      using u by (simp add: field_simps)
    also have "\<bar>(?m - ?x / ?ulp) * ?ulp\<bar> = \<bar>?m - ?x / ?ulp\<bar> * ?ulp"
      using u by (simp add: abs_mult)
    also have "\<dots> \<le> (1 / 2) * ?ulp"
      using u round_half_even_near [of "?x / ?ulp"] by (intro mult_right_mono) simp_all
    finally show ?thesis by simp
  qed
qed

lemma truediv_5_3: "py_truediv 5 3 = Inr (7505999378950827 / 4503599627370496)"
  by code_simp

lemma run_loop_vaccinated: "run_loop 3 1 [''I0'', ''V''] 0 = Inr ([''R'', ''V''], 1)"
  by code_simp

lemma run_loop_susceptible: "run_loop 3 1 [''I0'', ''S''] 0 = Inr ([''R'', ''R''], 2)"
  by code_simp

lemma varying_seeded: "rng (random_seed varying_mt (Some k) w) = varying_mt k"
  by (simp add: random_seed_def)

lemma varying_vaccinate_0:
  "vaccinate_spec (1 / 4) [''I0'', ''S''] (varying_mt 0) = [''I0'', ''V'']"
  by (simp add: varying_mt_def)

lemma varying_vaccinate_other:
  "k \<noteq> 0 \<Longrightarrow> vaccinate_spec (1 / 4) [''I0'', ''S''] (varying_mt k) = [''I0'', ''S'']"
  by (simp add: varying_mt_def)

lemma varying_run_0:
  "fst (run_simulation varying_mt [''I0'', ''S''] 1 (Some 0) (1 / 4) w) = Inr ([''R'', ''V''], 1)"
proof -
  have "fst (run_simulation varying_mt [''I0'', ''S''] 1 (Some 0) (1 / 4) w)
          = run_loop (nat (int (length [''I0'', ''S'']) + 1)) 1
              (vaccinate_spec (1 / 4) [''I0'', ''S''] (rng (random_seed varying_mt (Some 0) w))) 0"
    by (rule run_simulation_fst)
  also have "\<dots> = run_loop 3 1 [''I0'', ''V''] 0"
    unfolding varying_seeded varying_vaccinate_0 by simp
  also have "\<dots> = Inr ([''R'', ''V''], 1)"
    by (rule run_loop_vaccinated)
  finally show ?thesis .
qed

lemma varying_run_other:
  assumes "k \<noteq> 0"
  shows "fst (run_simulation varying_mt [''I0'', ''S''] 1 (Some k) (1 / 4) w)
           = Inr ([''R'', ''R''], 2)"
proof -
  have "fst (run_simulation varying_mt [''I0'', ''S''] 1 (Some k) (1 / 4) w)
          = run_loop (nat (int (length [''I0'', ''S'']) + 1)) 1
              (vaccinate_spec (1 / 4) [''I0'', ''S''] (rng (random_seed varying_mt (Some k) w))) 0"
    by (rule run_simulation_fst)
  also have "\<dots> = run_loop 3 1 [''I0'', ''S''] 0"
    unfolding varying_seeded varying_vaccinate_other [OF assms] by simp
  also have "\<dots> = Inr ([''R'', ''R''], 2)"
    by (rule run_loop_susceptible)
  finally show ?thesis .
qed

lemma varying_trials:
  assumes "\<exists>ds w'.
             calc_avg_days_to_zero_infections varying_mt [''I0'', ''S''] 1 (Some 0) (1 / 4) 3
                 example_world
               = (py_truediv (sum_list ds) 3, w')
             \<and> length ds = nat 3
             \<and> (\<forall>i < nat 3.
                   \<exists>c. fst (run_simulation varying_mt [''I0'', ''S''] 1 (Some (0 + int i)) (1 / 4)
                               example_world)
                          = Inr (c, ds ! i))
             \<and> seeded w' = seeded example_world @ map (\<lambda>i. Some (0 + int i)) [0..<nat 3]"
  shows "fst (calc_avg_days_to_zero_infections varying_mt [''I0'', ''S''] 1 (Some 0) (1 / 4) 3
                example_world)
           = Inr (7505999378950827 / 4503599627370496)
         \<and> seeded (snd (calc_avg_days_to_zero_infections varying_mt [''I0'', ''S''] 1 (Some 0)
                           (1 / 4) 3 example_world))
           = [Some 0, Some 1, Some 2]"
proof -
  let ?run = "\<lambda>k. fst (run_simulation varying_mt [''I0'', ''S''] 1 (Some k) (1 / 4) example_world)"
  from assms obtain ds w' where
    c: "calc_avg_days_to_zero_infections varying_mt [''I0'', ''S''] 1 (Some 0) (1 / 4) 3
          example_world = (py_truediv (sum_list ds) 3, w')"
    and l: "length ds = 3"
    and a: "\<And>i. i < 3 \<Longrightarrow> \<exists>c. ?run (0 + int i) = Inr (c, ds ! i)"
    and sd: "seeded w' = seeded example_world @ map (\<lambda>i. Some (0 + int i)) [0..<nat 3]"
    by auto
  from l obtain x y z where ds: "ds = [x, y, z]"
    by (auto simp: numeral_3_eq_3 length_Suc_conv)
  from a [of 0] varying_run_0 [of example_world] ds have x: "x = 1" by simp
  have r1: "?run 1 = Inr ([''R'', ''R''], 2)" by (rule varying_run_other) simp
  have r2: "?run 2 = Inr ([''R'', ''R''], 2)" by (rule varying_run_other) simp
  from a [of 1] r1 ds have y: "y = 2" by simp
  from a [of 2] r2 ds have z: "z = 2" by simp
  from c ds x y z have 1: "fst (calc_avg_days_to_zero_infections varying_mt [''I0'', ''S''] 1
                                  (Some 0) (1 / 4) 3 example_world)
                             = Inr (7505999378950827 / 4503599627370496)"
    by (simp add: truediv_5_3)
  have "map (\<lambda>i. Some (0 + int i)) [0..<nat 3] = [Some 0, Some 1, Some 2]"
    by (simp add: numeral_3_eq_3)
  with sd c have 2: "seeded (snd (calc_avg_days_to_zero_infections varying_mt [''I0'', ''S''] 1
                                    (Some 0) (1 / 4) 3 example_world))
                       = [Some 0, Some 1, Some 2]"
    by (simp add: example_world_def)
  from 1 2 show ?thesis by simp
qed

text \<open>
  C5, as the program behaves. The value returned is a float. With the trials lasting
  1, 2 and 2 days it is the double nearest to 5/3, which is not 5/3.
\<close>

theorem calc_avg_days_not_exact_counterexample:
  "fst (run_simulation varying_mt [''I0'', ''S''] 1 (Some 0) (1 / 4) example_world)
     = Inr ([''R'', ''V''], 1)
   \<and> fst (run_simulation varying_mt [''I0'', ''S''] 1 (Some 1) (1 / 4) example_world)
     = Inr ([''R'', ''R''], 2)
   \<and> fst (run_simulation varying_mt [''I0'', ''S''] 1 (Some 2) (1 / 4) example_world)
     = Inr ([''R'', ''R''], 2)
   \<and> fst (calc_avg_days_to_zero_infections varying_mt [''I0'', ''S''] 1 (Some 0) (1 / 4) 3
            example_world)
     = Inr (7505999378950827 / 4503599627370496)
   \<and> (7505999378950827 / 4503599627370496 :: real) \<noteq> (1 + 2 + 2) / 3"
proof -
  have m: "map render [Infected 0, Susceptible] = [''I0'', ''S'']" by (simp add: py_str_0)
  have p: "(0::int) < 3" by simp
  from calc_avg_render [OF p, of varying_mt "[Infected 0, Susceptible]" 1 0 "1 / 4"
                          example_world example_world]
  have "fst (calc_avg_days_to_zero_infections varying_mt [''I0'', ''S''] 1 (Some 0) (1 / 4) 3
               example_world)
          = Inr (7505999378950827 / 4503599627370496)"
    unfolding m by (rule varying_trials [THEN conjunct1])
  then show ?thesis
    by (simp add: varying_run_0 varying_run_other)
qed

text \<open>
  C5, amended. With \<open>num_trials > 0\<close>, \<open>calc_avg_days_to_zero_infections\<close> calls
  \<open>run_simulation\<close> exactly \<open>num_trials\<close> times, from the same starting snapshot, with
  the seeds \<open>start_seed\<close>, \<open>start_seed + 1\<close>, ... in that order: each call seeds the
  generator once, with its seed, and the history of the generator grows by exactly
  these seeds in this order. It returns \<open>sum / num_trials\<close> as a float, \<open>sum\<close> being the
  sum of the days of these runs: the arithmetic mean rounded to a double, at most half
  a unit of the last place away from the mean. Without \<open>num_trials > 0\<close> the assertion
  fails and nothing is run.
\<close>

theorem calc_avg_days_float_mean:
  "(0 < num_trials \<longrightarrow>
      (\<exists>ds w'.
         calc_avg_days_to_zero_infections mt (map render sts) dc (Some s) ve num_trials w
           = (py_truediv (sum_list ds) num_trials, w')
         \<and> length ds = nat num_trials
         \<and> (\<forall>i < nat num_trials.
               \<exists>c. fst (run_simulation mt (map render sts) dc (Some (s + int i)) ve w0)
                      = Inr (c, ds ! i))
         \<and> seeded w' = seeded w @ map (\<lambda>i. Some (s + int i)) [0..<nat num_trials]))
   \<and> seeded (snd (run_simulation mt city dc seed ve w)) = seeded w @ [seed]
   \<and> (py_truediv a b = Inr r \<longrightarrow>
        \<bar>r - real_of_int a / real_of_int b\<bar>
          \<le> pow2 (max (quotient_exponent \<bar>a\<bar> \<bar>b\<bar>) (- 1022) - 52) / 2)
   \<and> (\<not> 0 < num_trials \<longrightarrow>
        calc_avg_days_to_zero_infections mt city dc seed ve num_trials w
          = (Inl AssertionError, w))"
proof (intro conjI impI)
  assume "0 < num_trials"
  then show "\<exists>ds w'.
         calc_avg_days_to_zero_infections mt (map render sts) dc (Some s) ve num_trials w
           = (py_truediv (sum_list ds) num_trials, w')
         \<and> length ds = nat num_trials
         \<and> (\<forall>i < nat num_trials.
               \<exists>c. fst (run_simulation mt (map render sts) dc (Some (s + int i)) ve w0)
                      = Inr (c, ds ! i))
         \<and> seeded w' = seeded w @ map (\<lambda>i. Some (s + int i)) [0..<nat num_trials]"
    by (rule calc_avg_render)
next
  show "seeded (snd (run_simulation mt city dc seed ve w)) = seeded w @ [seed]"
    by (rule run_simulation_seeded)
next
  assume "py_truediv a b = Inr r"
  then show "\<bar>r - real_of_int a / real_of_int b\<bar>
               \<le> pow2 (max (quotient_exponent \<bar>a\<bar> \<bar>b\<bar>) (- 1022) - 52) / 2"
    by (rule py_truediv_near)
next
  assume "\<not> 0 < num_trials"
  then show "calc_avg_days_to_zero_infections mt city dc seed ve num_trials w
               = (Inl AssertionError, w)"
    by (simp add: calc_avg_days_to_zero_infections_def)
qed

theorem calc_avg_days_float_mean_witness:
  "fst (calc_avg_days_to_zero_infections varying_mt [''I0'', ''S''] 1 (Some 0) (1 / 4) 3
          example_world)
     = Inr (7505999378950827 / 4503599627370496)
   \<and> seeded (snd (calc_avg_days_to_zero_infections varying_mt [''I0'', ''S''] 1 (Some 0)
                     (1 / 4) 3 example_world))
     = [Some 0, Some 1, Some 2]
   \<and> \<bar>7505999378950827 / 4503599627370496 - real_of_int 5 / real_of_int 3\<bar>
        \<le> pow2 (max (quotient_exponent \<bar>5\<bar> \<bar>3\<bar>) (- 1022) - 52) / 2
   \<and> calc_avg_days_to_zero_infections varying_mt [''I0'', ''S''] 1 (Some 0) (1 / 4) 0
        example_world
     = (Inl AssertionError, example_world)"
proof -
  have m: "map render [Infected 0, Susceptible] = [''I0'', ''S'']" by (simp add: py_str_0)
  note t3 = calc_avg_days_float_mean
              [of 3 varying_mt "[Infected 0, Susceptible]" 1 0 "1 / 4" example_world example_world
                  "[''I0'', ''S'']" "Some 0" 5 3 "7505999378950827 / 4503599627370496"]
  note t0 = calc_avg_days_float_mean
              [of 0 varying_mt "[Infected 0, Susceptible]" 1 0 "1 / 4" example_world example_world
                  "[''I0'', ''S'']" "Some 0" 5 3 "7505999378950827 / 4503599627370496"]
  from t3 have e: "\<exists>ds w'.
             calc_avg_days_to_zero_infections varying_mt [''I0'', ''S''] 1 (Some 0) (1 / 4) 3
                 example_world
               = (py_truediv (sum_list ds) 3, w')
             \<and> length ds = nat 3
             \<and> (\<forall>i < nat 3.
                   \<exists>c. fst (run_simulation varying_mt [''I0'', ''S''] 1 (Some (0 + int i)) (1 / 4)
                               example_world)
                          = Inr (c, ds ! i))
             \<and> seeded w' = seeded example_world @ map (\<lambda>i. Some (0 + int i)) [0..<nat 3]"
    unfolding m by simp
  note 1 = varying_trials [OF e]
  from t3 truediv_5_3 have 2:
    "\<bar>7505999378950827 / 4503599627370496 - real_of_int 5 / real_of_int 3\<bar>
        \<le> pow2 (max (quotient_exponent \<bar>5\<bar> \<bar>3\<bar>) (- 1022) - 52) / 2"
    by blast
  from t0 have 3: "calc_avg_days_to_zero_infections varying_mt [''I0'', ''S''] 1 (Some 0) (1 / 4) 0
                     example_world = (Inl AssertionError, example_world)"
    by simp
  from 1 2 3 show ?thesis by blast
qed

end
